theory Spec2Isabelle
  imports Main "HOL-Library.Sublist" "HOL-Library.Multiset"
begin

section \<open>Data model of App.jsx\<close>

text \<open>
  The application keeps four collections in React state and mirrors them in one remote
  document. The objects are plain JavaScript objects; a key that may be missing from an
  object is an \<open>option\<close> field here (\<open>None\<close> for \<open>undefined\<close> or \<open>null\<close>).
  Every construction site of an Option writes \<open>winner: false\<close>, so \<open>winner\<close> is a
  \<open>bool\<close>. Options created before identifiers existed carry no \<open>id\<close>.

  The texts that the search reads (names, models, stores and the query) are JavaScript
  strings, that is sequences of UTF-16 code units, here lists of numbers; \<open>units\<close>
  gives the code units of an ASCII literal. Identifiers and the other texts are only
  stored and compared and stay \<open>string\<close>.
\<close>

type_synonym code_unit = nat

type_synonym js_string = "code_unit list"

definition units :: "string \<Rightarrow> js_string" where
  "units s = map of_char s"

record opt =
  opt_id :: "string option"
  model :: "js_string option"
  opt_price :: string
  store :: "js_string option"
  opt_link :: string
  opt_notes :: string
  winner :: bool
  opt_image :: "string option"

record item =
  item_id :: string
  spaceId :: string
  item_name :: "js_string option"
  options :: "opt list option"
  item_image :: "string option"
  item_order :: nat

record space =
  space_id :: string
  space_name :: "js_string option"
  space_image :: "string option"

record entry =
  entry_id :: string
  entry_text :: "string option"
  completed :: bool

text \<open>
  The remote document and the argument of a merge write: each top-level key is present
  or absent.
\<close>

record document =
  doc_spaces :: "space list option"
  doc_items :: "item list option"
  doc_groceries :: "entry list option"
  doc_repairs :: "entry list option"
  doc_lastUpdated :: "int option"

datatype path = UserDoc string | ShareDoc string

type_synonym remote_store = "path \<Rightarrow> document option"

text \<open>An argument of \<open>saveData\<close>: the call sites pass \<open>undefined\<close>, \<open>null\<close> or an array.\<close>

datatype 'a js_arg = Undefined | Null | Val 'a

text \<open>The partial object passed to \<open>updateItem\<close>; the call sites set \<open>name\<close> or \<open>options\<close>.\<close>

record item_updates =
  upd_name :: "js_string option"
  upd_options :: "opt list option"

datatype js_error = TypeError | StaleDragIndex

text \<open>
  The React state of \<open>App\<close> that the handlers read and set, together with the remote
  store the writes go to. A handler reads the state of the render it was created in and
  returns the state after its setters have been applied.
\<close>

record state =
  user :: "string option"
  isReadOnly :: bool
  searchQuery :: js_string
  spaces :: "space list"
  items :: "item list"
  groceries :: "entry list"
  repairs :: "entry list"
  selectedItem :: "item option"
  draggedOptionIdx :: "nat option"
  loading :: bool
  remote :: remote_store

text \<open>
  What a handler takes from outside the program: the clock (\<open>Date.now()\<close>), whether the
  store accepts the write (\<open>setDoc\<close> may reject; the rejection is caught and logged), and
  the identifiers \<open>crypto.randomUUID()\<close> returns, in call order.
\<close>

record env =
  now :: int
  write_ok :: bool
  randomUUID :: "nat \<Rightarrow> string"

definition DEFAULT_SPACES :: "space list" where
  "DEFAULT_SPACES =
    [\<lparr>space_id = ''1'', space_name = Some (units ''Living Room''), space_image = None\<rparr>,
     \<lparr>space_id = ''2'', space_name = Some (units ''Kitchen''), space_image = None\<rparr>,
     \<lparr>space_id = ''3'', space_name = Some (units ''Bathroom''), space_image = None\<rparr>,
     \<lparr>space_id = ''4'', space_name = Some (units ''Master Bedroom''), space_image = None\<rparr>,
     \<lparr>space_id = ''5'', space_name = Some (units ''Wardrobe''), space_image = None\<rparr>,
     \<lparr>space_id = ''6'', space_name = Some (units ''Kids' Room''), space_image = None\<rparr>,
     \<lparr>space_id = ''7'', space_name = Some (units ''Garden''), space_image = None\<rparr>]"

text \<open>The \<open>useState\<close> defaults of \<open>App\<close>, over a given remote store.\<close>

definition initial_state :: "remote_store \<Rightarrow> state" where
  "initial_state r =
    \<lparr>user = None, isReadOnly = False, searchQuery = [], spaces = DEFAULT_SPACES,
     items = [], groceries = [], repairs = [], selectedItem = None,
     draggedOptionIdx = None, loading = True, remote = r\<rparr>"


section \<open>Sync engine\<close>

subsection \<open>Subscription handler\<close>

text \<open>
  The \<open>onSnapshot\<close> callback. A snapshot that does not exist is \<open>None\<close>. The test
  \<open>if (data.spaces)\<close> is a truthiness test; an array, also the empty one, is truthy, so a
  present key always overwrites.
\<close>

definition onSnapshot_handler :: "document option \<Rightarrow> state \<Rightarrow> state" where
  "onSnapshot_handler snapshot st =
    (case snapshot of
       None \<Rightarrow> st\<lparr>loading := False\<rparr>
     | Some data \<Rightarrow>
         (let st1 = (case doc_spaces data of Some v \<Rightarrow> st\<lparr>spaces := v\<rparr> | None \<Rightarrow> st);
              st2 = (case doc_items data of Some v \<Rightarrow> st1\<lparr>items := v\<rparr> | None \<Rightarrow> st1);
              st3 = (case doc_groceries data of Some v \<Rightarrow> st2\<lparr>groceries := v\<rparr> | None \<Rightarrow> st2);
              st4 = (case doc_repairs data of Some v \<Rightarrow> st3\<lparr>repairs := v\<rparr> | None \<Rightarrow> st3)
          in st4\<lparr>loading := False\<rparr>))"

subsection \<open>Persisting\<close>

definition empty_document :: document where
  "empty_document =
    \<lparr>doc_spaces = None, doc_items = None, doc_groceries = None, doc_repairs = None,
     doc_lastUpdated = None\<rparr>"

definition provided :: "'a js_arg \<Rightarrow> 'a option" where
  "provided a = (case a of Undefined \<Rightarrow> None | Null \<Rightarrow> None | Val v \<Rightarrow> Some v)"

text \<open>The object \<open>updates\<close> that \<open>saveData\<close> builds before the write.\<close>

definition build_updates ::
  "int \<Rightarrow> space list js_arg \<Rightarrow> item list js_arg \<Rightarrow> entry list js_arg \<Rightarrow> entry list js_arg
    \<Rightarrow> document" where
  "build_updates t newSpaces newItems newGroceries newRepairs =
    \<lparr>doc_spaces = provided newSpaces, doc_items = provided newItems,
     doc_groceries = provided newGroceries, doc_repairs = provided newRepairs,
     doc_lastUpdated = Some t\<rparr>"

definition or_else :: "'a option \<Rightarrow> 'a option \<Rightarrow> 'a option" where
  "or_else new old = (case new of Some v \<Rightarrow> Some v | None \<Rightarrow> old)"

text \<open>
  Modelled from the spec: the merge write of the external document store
  (\<open>setDoc(docRef, updates, { merge: true })\<close> of the Firestore client, which is not
  code of this repository), as \<open>merge_document\<close> on one document and
  \<open>setDoc_merge\<close> on the store. The spec describes it as a write of only the provided
  top-level keys that leaves the other keys of the remote document unchanged, and says a
  document is created implicitly on the first write.
\<close>

definition merge_document :: "document \<Rightarrow> document \<Rightarrow> document" where
  "merge_document old upd =
    \<lparr>doc_spaces = or_else (doc_spaces upd) (doc_spaces old),
     doc_items = or_else (doc_items upd) (doc_items old),
     doc_groceries = or_else (doc_groceries upd) (doc_groceries old),
     doc_repairs = or_else (doc_repairs upd) (doc_repairs old),
     doc_lastUpdated = or_else (doc_lastUpdated upd) (doc_lastUpdated old)\<rparr>"

definition setDoc_merge :: "remote_store \<Rightarrow> path \<Rightarrow> document \<Rightarrow> remote_store" where
  "setDoc_merge r p upd =
    r(p \<mapsto> merge_document (case r p of None \<Rightarrow> empty_document | Some d \<Rightarrow> d) upd)"

text \<open>
  \<open>saveData\<close>: returns at once without a user or in a read-only session; otherwise
  writes \<open>updates\<close> to the user's own document. A rejected write is caught and leaves
  everything as it was.
\<close>

definition saveData ::
  "env \<Rightarrow> space list js_arg \<Rightarrow> item list js_arg \<Rightarrow> entry list js_arg \<Rightarrow> entry list js_arg
    \<Rightarrow> state \<Rightarrow> state" where
  "saveData e newSpaces newItems newGroceries newRepairs st =
    (case user st of
       None \<Rightarrow> st
     | Some uid \<Rightarrow>
         if isReadOnly st then st
         else if write_ok e then
           st\<lparr>remote := setDoc_merge (remote st) (UserDoc uid)
                 (build_updates (now e) newSpaces newItems newGroceries newRepairs)\<rparr>
         else st)"


section \<open>Mutation handlers\<close>

text \<open>The spread \<open>{ ...i, ...updates }\<close>: the keys present in \<open>updates\<close> replace those of \<open>i\<close>.\<close>

definition apply_updates :: "item \<Rightarrow> item_updates \<Rightarrow> item" where
  "apply_updates i u =
    (let i1 = (case upd_name u of Some n \<Rightarrow> i\<lparr>item_name := Some n\<rparr> | None \<Rightarrow> i)
     in (case upd_options u of Some os \<Rightarrow> i1\<lparr>options := Some os\<rparr> | None \<Rightarrow> i1))"

definition updateItem :: "env \<Rightarrow> string \<Rightarrow> item_updates \<Rightarrow> state \<Rightarrow> state" where
  "updateItem e itemId updates st =
    (let updated = map (\<lambda>i. if item_id i = itemId then apply_updates i updates else i) (items st);
         st1 = saveData e Null (Val updated) Null Undefined (st\<lparr>items := updated\<rparr>)
     in (case selectedItem st of
           None \<Rightarrow> st1
         | Some sel \<Rightarrow>
             if item_id sel = itemId
             then st1\<lparr>selectedItem := Some (apply_updates sel updates)\<rparr>
             else st1))"

definition deleteItem :: "env \<Rightarrow> string \<Rightarrow> state \<Rightarrow> state" where
  "deleteItem e itemId st =
    (let updated = filter (\<lambda>i. item_id i \<noteq> itemId) (items st);
         st1 = saveData e Null (Val updated) Null Undefined (st\<lparr>items := updated\<rparr>)
     in st1\<lparr>selectedItem := None\<rparr>)"

definition only_options :: "opt list \<Rightarrow> item_updates" where
  "only_options os = \<lparr>upd_name = None, upd_options = Some os\<rparr>"

subsection \<open>Winner toggle\<close>

text \<open>
  The \<open>onClick\<close> of the Trophy button of the option card at index \<open>idx\<close>. The copy
  \<open>[...selectedItem.options]\<close> is shallow, and the handler writes into the option
  objects; an option object occurs at one index of one list (lists come from the
  document or from spreads with a fresh object), so the writes are updates by index.
  Reading \<open>selectedItem.options\<close> of \<open>null\<close>, spreading \<open>undefined\<close> and writing to
  \<open>newOptions[idx]\<close> beyond the list raise a TypeError.
\<close>

definition clear_others :: "nat \<Rightarrow> opt list \<Rightarrow> opt list" where
  "clear_others idx os =
    map (\<lambda>(i, x). if i \<noteq> idx then x\<lparr>winner := False\<rparr> else x) (zip [0..<length os] os)"

definition toggle_winner :: "nat \<Rightarrow> opt list \<Rightarrow> opt list" where
  "toggle_winner idx os =
    (let newOptions = os[idx := (os ! idx)\<lparr>winner := \<not> winner (os ! idx)\<rparr>]
     in if winner (newOptions ! idx) then clear_others idx newOptions else newOptions)"

definition winner_onClick :: "env \<Rightarrow> nat \<Rightarrow> state \<Rightarrow> js_error + state" where
  "winner_onClick e idx st =
    (case selectedItem st of
       None \<Rightarrow> Inl TypeError
     | Some sel \<Rightarrow>
         (case options sel of
            None \<Rightarrow> Inl TypeError
          | Some os \<Rightarrow>
              if idx < length os
              then Inr (updateItem e (item_id sel) (only_options (toggle_winner idx os)) st)
              else Inl TypeError))"

text \<open>A run of clicks on Trophy buttons, left to right, stopping at the first error.\<close>

fun winner_onClicks :: "env \<Rightarrow> nat list \<Rightarrow> state \<Rightarrow> js_error + state" where
  "winner_onClicks e [] st = Inr st"
| "winner_onClicks e (idx # idxs) st =
     (case winner_onClick e idx st of Inl err \<Rightarrow> Inl err | Inr st' \<Rightarrow> winner_onClicks e idxs st')"

text \<open>The options of the selected item, as the detail view reads them.\<close>

definition selected_options :: "state \<Rightarrow> opt list option" where
  "selected_options st = (case selectedItem st of None \<Rightarrow> None | Some sel \<Rightarrow> options sel)"

text \<open>The same after a handler that may fail.\<close>

definition options_after :: "js_error + state \<Rightarrow> opt list option" where
  "options_after r = (case r of Inl err \<Rightarrow> None | Inr st \<Rightarrow> selected_options st)"

definition winners :: "opt list \<Rightarrow> nat" where
  "winners os = length (filter winner os)"

subsection \<open>Identifier backfill\<close>

text \<open>
  The effect that runs when \<open>selectedItem\<close> changes. \<open>o.id\<close> is tested for truthiness:
  a missing identifier and the empty string both count as lacking one. The \<open>map\<close> calls
  \<open>crypto.randomUUID()\<close> once for each option that lacks an identifier, in list order;
  \<open>n\<close> counts the calls made so far.
\<close>

definition has_id :: "opt \<Rightarrow> bool" where
  "has_id x = (case opt_id x of None \<Rightarrow> False | Some s \<Rightarrow> s \<noteq> [])"

fun patch_ids :: "(nat \<Rightarrow> string) \<Rightarrow> nat \<Rightarrow> opt list \<Rightarrow> opt list" where
  "patch_ids f n [] = []"
| "patch_ids f n (x # xs) =
     (if has_id x then x # patch_ids f n xs
      else x\<lparr>opt_id := Some (f n)\<rparr> # patch_ids f (Suc n) xs)"

definition backfill_effect :: "env \<Rightarrow> state \<Rightarrow> state" where
  "backfill_effect e st =
    (case selectedItem st of
       None \<Rightarrow> st
     | Some sel \<Rightarrow>
         (case options sel of
            None \<Rightarrow> st
          | Some os \<Rightarrow>
              if list_ex (\<lambda>x. \<not> has_id x) os
              then updateItem e (item_id sel) (only_options (patch_ids (randomUUID e) 0 os)) st
              else st))"

subsection \<open>Option reordering\<close>

text \<open>
  \<open>Array.prototype.splice\<close> as the drop handler uses it: \<open>splice(start, 1)\<close> removes
  and returns at most one element, \<open>splice(start, 0, v)\<close> inserts \<open>v\<close>; a start beyond
  the end is clamped to the length. Indices come from \<open>map\<close> and are never negative.
\<close>

definition splice_remove :: "nat \<Rightarrow> 'a list \<Rightarrow> 'a list \<times> 'a list" where
  "splice_remove start xs = (take 1 (drop start xs), take start xs @ drop (Suc start) xs)"

definition splice_insert :: "nat \<Rightarrow> 'a \<Rightarrow> 'a list \<Rightarrow> 'a list" where
  "splice_insert start v xs = take start xs @ v # drop start xs"

text \<open>
  \<open>handleOptionDrop\<close>. When the remembered drag index lies beyond the list, the
  destructuring \<open>[draggedOption]\<close> yields \<open>undefined\<close>; the source inserts it, calls
  \<open>updateItem\<close> with that list and resets the drag index. An option list here has no
  such element, so the model stops there with \<open>StaleDragIndex\<close> instead; the
  properties below are about drag indices within the list, where the two agree.
\<close>

definition handleOptionDrop :: "env \<Rightarrow> nat \<Rightarrow> state \<Rightarrow> js_error + state" where
  "handleOptionDrop e dropIndex st =
    (case draggedOptionIdx st of
       None \<Rightarrow> Inr st
     | Some dragIdx \<Rightarrow>
         if dragIdx = dropIndex then Inr st
         else
           (case selectedItem st of
              None \<Rightarrow> Inl TypeError
            | Some sel \<Rightarrow>
                (case options sel of
                   None \<Rightarrow> Inl TypeError
                 | Some os \<Rightarrow>
                     (case splice_remove dragIdx os of
                        ([], rest) \<Rightarrow> Inl StaleDragIndex
                      | (draggedOption # _, rest) \<Rightarrow>
                          Inr ((updateItem e (item_id sel)
                                  (only_options (splice_insert dropIndex draggedOption rest)) st)
                               \<lparr>draggedOptionIdx := None\<rparr>)))))"


section \<open>Search and filter\<close>

text \<open>
  \<open>String.prototype.toLowerCase\<close> and \<open>String.prototype.includes\<close> are builtins of
  the JavaScript platform. \<open>includes\<close> is \<open>str_includes\<close>: it looks for the query at
  every start position. \<open>toLowerCase\<close> is the Unicode lower-case conversion, with
  tables and context rules that are no part of this program; the functions of the search
  take it as their first argument, named as in the source. \<open>(x || '')\<close> reads a
  missing or empty string as the empty string.
\<close>

fun str_includes :: "js_string \<Rightarrow> js_string \<Rightarrow> bool" where
  "str_includes [] q = (q = [])"
| "str_includes (c # cs) q = (prefix q (c # cs) \<or> str_includes cs q)"

definition or_empty :: "js_string option \<Rightarrow> js_string" where
  "or_empty x = (case x of None \<Rightarrow> [] | Some s \<Rightarrow> s)"

definition or_nil :: "'a list option \<Rightarrow> 'a list" where
  "or_nil x = (case x of None \<Rightarrow> [] | Some xs \<Rightarrow> xs)"

definition matchItem :: "(js_string \<Rightarrow> js_string) \<Rightarrow> item \<Rightarrow> js_string \<Rightarrow> bool" where
  "matchItem toLowerCase it query =
    (let q = toLowerCase query;
         atomicName = toLowerCase (or_empty (item_name it));
         matchesName = str_includes atomicName q;
         matchesOptions =
           list_ex (\<lambda>x. str_includes (toLowerCase (or_empty (model x))) q \<or>
                        str_includes (toLowerCase (or_empty (store x))) q)
                   (or_nil (options it))
     in matchesName \<or> matchesOptions)"

definition filteredSpaces :: "(js_string \<Rightarrow> js_string) \<Rightarrow> state \<Rightarrow> space list" where
  "filteredSpaces toLowerCase st =
    filter (\<lambda>s.
        let matchesName =
              str_includes (toLowerCase (or_empty (space_name s))) (toLowerCase (searchQuery st));
            hasMatchingItems =
              list_ex (\<lambda>i. spaceId i = space_id s \<and> matchItem toLowerCase i (searchQuery st))
                (items st)
        in matchesName \<or> hasMatchingItems)
      (spaces st)"

text \<open>The list the search results view maps over: \<open>items.filter(i => matchItem(i, searchQuery))\<close>.\<close>

definition filteredItems :: "(js_string \<Rightarrow> js_string) \<Rightarrow> state \<Rightarrow> item list" where
  "filteredItems toLowerCase st = filter (\<lambda>i. matchItem toLowerCase i (searchQuery st)) (items st)"

subsection \<open>What the search is compared with\<close>

text \<open>
  What the code decides: the lower-cased query occurs in the lower-cased text as a
  contiguous block.
\<close>

definition lowered_substring ::
  "(js_string \<Rightarrow> js_string) \<Rightarrow> js_string \<Rightarrow> js_string \<Rightarrow> bool" where
  "lowered_substring toLowerCase query s = sublist (toLowerCase query) (toLowerCase s)"

text \<open>
  The words of the specification, stated without any lower-casing: the query is a
  case-insensitive substring of a text when some contiguous block of the text is the
  query letter by letter, where two code units are the same letter when they are equal
  or one is a capital \<open>A\<close>..\<open>Z\<close> and the other its small letter. On letters outside
  ASCII this relation knows no case pairs; it is only ever needed below on ASCII texts
  and for blocks that are equal to the query.
\<close>

definition is_upper :: "code_unit \<Rightarrow> bool" where
  "is_upper c = (65 \<le> c \<and> c \<le> 90)"

definition is_lower :: "code_unit \<Rightarrow> bool" where
  "is_lower c = (97 \<le> c \<and> c \<le> 122)"

definition same_letter :: "code_unit \<Rightarrow> code_unit \<Rightarrow> bool" where
  "same_letter c d = (c = d \<or> (is_upper c \<and> d = c + 32) \<or> (is_upper d \<and> c = d + 32))"

definition ci_substring :: "js_string \<Rightarrow> js_string \<Rightarrow> bool" where
  "ci_substring query s = (\<exists>block. sublist block s \<and> list_all2 same_letter query block)"

text \<open>
  What is assumed of \<open>toLowerCase\<close> where case-insensitivity is concluded: on a string
  of ASCII code units it turns \<open>A\<close>..\<open>Z\<close> into \<open>a\<close>..\<open>z\<close> and keeps the rest, as
  ECMA-262 has it.
\<close>

definition is_ascii :: "js_string \<Rightarrow> bool" where
  "is_ascii s = list_all (\<lambda>c. c < 128) s"

definition ascii_lower :: "code_unit \<Rightarrow> code_unit" where
  "ascii_lower c = (if is_upper c then c + 32 else c)"

definition lowers_ascii :: "(js_string \<Rightarrow> js_string) \<Rightarrow> bool" where
  "lowers_ascii toLowerCase = (\<forall>s. is_ascii s \<longrightarrow> toLowerCase s = map ascii_lower s)"

subsection \<open>Lower-casing ASCII and Greek\<close>

text \<open>
  \<open>String.prototype.toLowerCase\<close> as ECMA-262 defines it (the Unicode default case
  conversion with the context-sensitive mappings of SpecialCasing.txt), written out for
  strings of ASCII code units and of the Greek letters U+0391..U+03A9 and
  U+03B1..U+03C9, where it is exact: a capital becomes its small letter, 32 further on,
  except that the capital sigma U+03A3 becomes the final sigma U+03C2 when it is preceded
  by a cased letter and then any number of case-ignorable characters, and not followed by
  any number of case-ignorable characters and then a cased letter (the condition
  Final_Sigma), and the small sigma U+03C3 otherwise. Among these code units the
  case-ignorable ones are the apostrophe, the full stop, the colon, the circumflex and
  the grave accent. It instantiates the argument \<open>toLowerCase\<close> on such strings; other
  code units it keeps, which says nothing about the builtin there.
\<close>

definition is_greek_upper :: "code_unit \<Rightarrow> bool" where
  "is_greek_upper c = (913 \<le> c \<and> c \<le> 937 \<and> c \<noteq> 930)"

definition is_greek_lower :: "code_unit \<Rightarrow> bool" where
  "is_greek_lower c = (945 \<le> c \<and> c \<le> 969)"

definition is_cased :: "code_unit \<Rightarrow> bool" where
  "is_cased c = (is_upper c \<or> is_lower c \<or> is_greek_upper c \<or> is_greek_lower c)"

definition is_case_ignorable :: "code_unit \<Rightarrow> bool" where
  "is_case_ignorable c = (c = 39 \<or> c = 46 \<or> c = 58 \<or> c = 94 \<or> c = 96)"

fun followed_by_cased :: "js_string \<Rightarrow> bool" where
  "followed_by_cased [] = False"
| "followed_by_cased (c # cs) = (if is_case_ignorable c then followed_by_cased cs else is_cased c)"

definition lower_unit :: "code_unit \<Rightarrow> code_unit" where
  "lower_unit c = (if is_upper c \<or> is_greek_upper c then c + 32 else c)"

fun lower_from :: "bool \<Rightarrow> js_string \<Rightarrow> js_string" where
  "lower_from after_cased [] = []"
| "lower_from after_cased (c # cs) =
     (if c = 931 then
        (if after_cased \<and> \<not> followed_by_cased cs then 962 else 963) # lower_from True cs
      else
        lower_unit c # lower_from (if is_case_ignorable c then after_cased else is_cased c) cs)"

definition lower_ascii_greek :: "js_string \<Rightarrow> js_string" where
  "lower_ascii_greek s = lower_from False s"

text \<open>Reading one top-level key of the document at a path; no document, no key.\<close>

definition read_key :: "remote_store \<Rightarrow> path \<Rightarrow> (document \<Rightarrow> 'a option) \<Rightarrow> 'a option" where
  "read_key r p k = (case r p of None \<Rightarrow> None | Some d \<Rightarrow> k d)"


section \<open>Concrete inputs\<close>

text \<open>Small values on which the properties below are instantiated.\<close>

definition mk_opt :: "string option \<Rightarrow> string \<Rightarrow> string \<Rightarrow> bool \<Rightarrow> opt" where
  "mk_opt ident m s w =
    \<lparr>opt_id = ident, model = Some (units m), opt_price = [], store = Some (units s), opt_link = [],
     opt_notes = [], winner = w, opt_image = None\<rparr>"

definition example_item :: "opt list \<Rightarrow> item" where
  "example_item os =
    \<lparr>item_id = ''i1'', spaceId = ''1'', item_name = Some (units ''Sofa''), options = Some os,
     item_image = None, item_order = 0\<rparr>"

definition example_state :: "opt list \<Rightarrow> state" where
  "example_state os =
    (initial_state (\<lambda>p. None))
      \<lparr>user := Some ''u1'', items := [example_item os], selectedItem := Some (example_item os)\<rparr>"

definition example_env :: env where
  "example_env = \<lparr>now = 1700000000000, write_ok = True, randomUUID = (\<lambda>n. replicate (Suc n) CHR ''u'')\<rparr>"

definition example_entry :: entry where
  "example_entry = \<lparr>entry_id = ''g1'', entry_text = Some ''Milk'', completed = False\<rparr>"

definition groceries_document :: document where
  "groceries_document = empty_document\<lparr>doc_groceries := Some [example_entry]\<rparr>"

definition synced_state :: state where
  "synced_state =
    (initial_state ((\<lambda>p. None)(UserDoc ''u1'' \<mapsto> groceries_document)))
      \<lparr>user := Some ''u1'', groceries := [example_entry]\<rparr>"

definition ikea_option :: opt where
  "ikea_option = mk_opt (Some ''o1'') ''Stockholm'' ''IKEA'' False"

definition search_state :: state where
  "search_state = (example_state [ikea_option])\<lparr>searchQuery := units ''ikea''\<rparr>"

definition odos_item :: item where
  "odos_item =
    \<lparr>item_id = ''i2'', spaceId = ''7'', item_name = Some [927, 916, 927, 931], options = Some [],
     item_image = None, item_order = 1\<rparr>"

definition odos_state :: state where
  "odos_state = (initial_state (\<lambda>p. None))\<lparr>items := [odos_item], searchQuery := [931]\<rparr>"

definition legacy_options :: "opt list" where
  "legacy_options =
    [mk_opt None ''A'' ''X'' False, mk_opt (Some ''o1'') ''B'' ''Y'' True,
     mk_opt (Some []) ''C'' ''Z'' False]"

definition three_winners :: "opt list" where
  "three_winners =
    [mk_opt (Some ''o1'') ''A'' ''X'' True, mk_opt (Some ''o2'') ''B'' ''Y'' True,
     mk_opt (Some ''o3'') ''C'' ''Z'' True]"

definition one_winner :: "opt list" where
  "one_winner = [mk_opt (Some ''o1'') ''A'' ''X'' False, mk_opt (Some ''o2'') ''B'' ''Y'' True]"


section \<open>Auxiliary facts\<close>

lemma saveData_local:
  "user (saveData e a b c d st) = user st"
  "isReadOnly (saveData e a b c d st) = isReadOnly st"
  "searchQuery (saveData e a b c d st) = searchQuery st"
  "spaces (saveData e a b c d st) = spaces st"
  "items (saveData e a b c d st) = items st"
  "groceries (saveData e a b c d st) = groceries st"
  "repairs (saveData e a b c d st) = repairs st"
  "selectedItem (saveData e a b c d st) = selectedItem st"
  "draggedOptionIdx (saveData e a b c d st) = draggedOptionIdx st"
  "loading (saveData e a b c d st) = loading st"
  by (simp_all add: saveData_def split: option.splits)

lemma items_updateItem:
  "items (updateItem e itemId u st) =
     map (\<lambda>i. if item_id i = itemId then apply_updates i u else i) (items st)"
  by (simp add: updateItem_def Let_def saveData_local split: option.splits)

lemma selectedItem_updateItem:
  "selectedItem (updateItem e itemId u st) =
     (case selectedItem st of
        None \<Rightarrow> None
      | Some sel \<Rightarrow> Some (if item_id sel = itemId then apply_updates sel u else sel))"
  by (simp add: updateItem_def Let_def saveData_local split: option.splits)

lemma apply_only_options: "apply_updates i (only_options os) = i\<lparr>options := Some os\<rparr>"
  by (simp add: apply_updates_def only_options_def)

lemma length_clear_others: "length (clear_others idx os) = length os"
  by (simp add: clear_others_def)

lemma nth_clear_others:
  "j < length os \<Longrightarrow>
     clear_others idx os ! j = (if j \<noteq> idx then (os ! j)\<lparr>winner := False\<rparr> else os ! j)"
  by (simp add: clear_others_def)

lemma length_toggle_winner: "length (toggle_winner idx os) = length os"
  by (simp add: toggle_winner_def Let_def length_clear_others)

lemma nth_toggle_winner_on:
  assumes "idx < length os" "\<not> winner (os ! idx)" "j < length os"
  shows "toggle_winner idx os ! j = (os ! j)\<lparr>winner := (j = idx)\<rparr>"
  using assms by (simp add: toggle_winner_def Let_def nth_clear_others nth_list_update)

lemma toggle_winner_off:
  assumes "idx < length os" "winner (os ! idx)"
  shows "toggle_winner idx os = os[idx := (os ! idx)\<lparr>winner := False\<rparr>]"
  using assms by (simp add: toggle_winner_def Let_def)

lemma filter_single:
  assumes "idx < length ys" "\<forall>j<length ys. P (ys ! j) \<longleftrightarrow> j = idx"
  shows "filter P ys = [ys ! idx]"
proof -
  have split: "ys = take idx ys @ ys ! idx # drop (Suc idx) ys"
    using assms(1) by (rule id_take_nth_drop)
  have a: "filter P (take idx ys) = []"
    using assms by (auto simp: filter_empty_conv in_set_conv_nth)
  have b: "filter P (drop (Suc idx) ys) = []"
    using assms by (auto simp: filter_empty_conv in_set_conv_nth)
  have c: "P (ys ! idx)" using assms by simp
  have "filter P ys = filter P (take idx ys @ ys ! idx # drop (Suc idx) ys)"
    using split by simp
  also have "\<dots> = [ys ! idx]" using a b c by simp
  finally show ?thesis .
qed


lemma saveData_cases:
  "saveData e a b c d st =
     (if (\<exists>uid. user st = Some uid) \<and> \<not> isReadOnly st \<and> write_ok e
      then st\<lparr>remote := setDoc_merge (remote st) (UserDoc (the (user st))) (build_updates (now e) a b c d)\<rparr>
      else st)"
  by (simp add: saveData_def split: option.splits)

lemma read_key_setDoc_other:
  "p \<noteq> q \<Longrightarrow> read_key (setDoc_merge r q upd) p k = read_key r p k"
  by (simp add: read_key_def setDoc_merge_def)

lemma setDoc_merge_other: "p \<noteq> q \<Longrightarrow> setDoc_merge r q upd p = r p"
  by (simp add: setDoc_merge_def)

lemma read_key_setDoc_same:
  "read_key (setDoc_merge r p upd) p k =
     k (merge_document (case r p of None \<Rightarrow> empty_document | Some d \<Rightarrow> d) upd)"
  by (simp add: read_key_def setDoc_merge_def)

lemma read_key_untouched:
  assumes "\<And>old. k (merge_document old upd) = k old" and "k empty_document = None"
  shows "read_key (setDoc_merge r q upd) p k = read_key r p k"
proof (cases "p = q")
  case True
  then show ?thesis using assms
    by (simp add: read_key_setDoc_same) (simp add: read_key_def split: option.splits)
next
  case False
  then show ?thesis by (simp add: read_key_setDoc_other)
qed

lemma merge_keeps:
  "doc_spaces upd = None \<Longrightarrow> doc_spaces (merge_document old upd) = doc_spaces old"
  "doc_items upd = None \<Longrightarrow> doc_items (merge_document old upd) = doc_items old"
  "doc_groceries upd = None \<Longrightarrow> doc_groceries (merge_document old upd) = doc_groceries old"
  "doc_repairs upd = None \<Longrightarrow> doc_repairs (merge_document old upd) = doc_repairs old"
  by (simp_all add: merge_document_def or_else_def)

lemma merge_writes:
  "doc_spaces upd = Some a \<Longrightarrow> doc_spaces (merge_document old upd) = Some a"
  "doc_items upd = Some b \<Longrightarrow> doc_items (merge_document old upd) = Some b"
  "doc_groceries upd = Some c \<Longrightarrow> doc_groceries (merge_document old upd) = Some c"
  "doc_repairs upd = Some d \<Longrightarrow> doc_repairs (merge_document old upd) = Some d"
  "doc_lastUpdated upd = Some t \<Longrightarrow> doc_lastUpdated (merge_document old upd) = Some t"
  by (simp_all add: merge_document_def or_else_def)

lemma build_updates_keys:
  "doc_spaces (build_updates t a b c d) = provided a"
  "doc_items (build_updates t a b c d) = provided b"
  "doc_groceries (build_updates t a b c d) = provided c"
  "doc_repairs (build_updates t a b c d) = provided d"
  "doc_lastUpdated (build_updates t a b c d) = Some t"
  by (simp_all add: build_updates_def)

lemma empty_document_keys:
  "doc_spaces empty_document = None" "doc_items empty_document = None"
  "doc_groceries empty_document = None" "doc_repairs empty_document = None"
  "doc_lastUpdated empty_document = None"
  by (simp_all add: empty_document_def)

lemma saveData_keeps_key:
  assumes "\<And>old. k (merge_document old (build_updates (now e) a b c d)) = k old"
    and "k empty_document = None"
  shows "read_key (remote (saveData e a b c d st)) p k = read_key (remote st) p k"
  using assms by (simp add: saveData_cases read_key_untouched)

lemma items_deleteItem:
  "items (deleteItem e itemId st) = filter (\<lambda>i. item_id i \<noteq> itemId) (items st)"
  by (simp add: deleteItem_def Let_def saveData_local)

lemma selectedItem_deleteItem: "selectedItem (deleteItem e itemId st) = None"
  by (simp add: deleteItem_def Let_def)


lemma splice_remove_in_range:
  "i < length xs \<Longrightarrow> splice_remove i xs = ([xs ! i], take i xs @ drop (Suc i) xs)"
  by (simp add: splice_remove_def take_Suc_conv_app_nth Cons_nth_drop_Suc [symmetric])

lemma mset_splice_insert: "mset (splice_insert j v ys) = add_mset v (mset ys)"
proof -
  have "mset (take j ys) + mset (drop j ys) = mset (take j ys @ drop j ys)"
    by (simp only: mset_append)
  then have "mset (take j ys) + mset (drop j ys) = mset ys"
    by (simp only: append_take_drop_id)
  then show ?thesis
    by (simp add: splice_insert_def)
qed

lemma mset_remove_at:
  assumes "i < length xs"
  shows "add_mset (xs ! i) (mset (take i xs @ drop (Suc i) xs)) = mset xs"
proof -
  have "mset xs = mset (take i xs @ xs ! i # drop (Suc i) xs)"
    using assms by (simp only: id_take_nth_drop [symmetric])
  then show ?thesis by simp
qed

lemma mset_remove_insert:
  assumes "i < length xs"
  shows "mset (splice_insert j (xs ! i) (take i xs @ drop (Suc i) xs)) = mset xs"
  using assms by (simp only: mset_splice_insert mset_remove_at)

lemma nth_splice_insert: "j \<le> length xs \<Longrightarrow> splice_insert j v xs ! j = v"
  by (simp add: splice_insert_def nth_append)

lemma remove_splice_insert:
  "j \<le> length xs \<Longrightarrow>
     take j (splice_insert j v xs) @ drop (Suc j) (splice_insert j v xs) = xs"
  by (simp add: splice_insert_def)

lemma length_splice_insert: "length (splice_insert j v xs) = Suc (length xs)"
  by (simp add: splice_insert_def)

lemma str_includes_sublist: "str_includes s q \<longleftrightarrow> sublist q s"
  by (induction s) (simp_all add: sublist_Cons_right)

lemma ascii_lower_eq_iff: "ascii_lower c = ascii_lower d \<longleftrightarrow> same_letter c d"
  by (auto simp add: ascii_lower_def same_letter_def is_upper_def)

lemma map_ascii_lower_eq_iff:
  "map ascii_lower xs = map ascii_lower ys \<longleftrightarrow> list_all2 same_letter ys xs"
proof (induction xs arbitrary: ys)
  case Nil
  then show ?case by auto
next
  case (Cons x xs)
  show ?case
  proof (cases ys)
    case Nil
    then show ?thesis by simp
  next
    case (Cons y ys')
    with Cons.IH [of ys'] show ?thesis
      by (auto simp add: ascii_lower_eq_iff [symmetric])
  qed
qed

lemma sublist_map_iff: "sublist xs (map f ys) \<longleftrightarrow> (\<exists>zs. sublist zs ys \<and> map f zs = xs)"
proof
  assume "sublist xs (map f ys)"
  from sublist_map_rightE [OF this] obtain zs where "sublist zs ys" and "xs = map f zs"
    by blast
  then show "\<exists>zs. sublist zs ys \<and> map f zs = xs" by blast
next
  assume "\<exists>zs. sublist zs ys \<and> map f zs = xs"
  then obtain zs ps ss where "ys = ps @ zs @ ss" and "map f zs = xs"
    by (auto simp add: sublist_def)
  then have "map f ys = map f ps @ xs @ map f ss" by simp
  then show "sublist xs (map f ys)" by (simp only: sublist_appendI)
qed

lemma lowered_substring_ascii:
  assumes "lowers_ascii toLowerCase" and "is_ascii query" and "is_ascii s"
  shows "lowered_substring toLowerCase query s \<longleftrightarrow> ci_substring query s"
proof -
  have "lowered_substring toLowerCase query s \<longleftrightarrow>
      sublist (map ascii_lower query) (map ascii_lower s)"
    using assms by (simp add: lowered_substring_def lowers_ascii_def)
  also have "\<dots> \<longleftrightarrow> (\<exists>zs. sublist zs s \<and> map ascii_lower zs = map ascii_lower query)"
    by (rule sublist_map_iff)
  also have "\<dots> \<longleftrightarrow> ci_substring query s"
    by (simp add: ci_substring_def map_ascii_lower_eq_iff)
  finally show ?thesis .
qed

lemma lower_from_ascii: "is_ascii s \<Longrightarrow> lower_from after_cased s = map ascii_lower s"
  by (induction s arbitrary: after_cased)
     (auto simp add: is_ascii_def lower_unit_def ascii_lower_def is_greek_upper_def)

lemma lowers_ascii_model: "lowers_ascii lower_ascii_greek"
  by (simp add: lowers_ascii_def lower_ascii_greek_def lower_from_ascii)

lemmas lower_eval =
  units_def lower_ascii_greek_def lower_unit_def is_upper_def is_lower_def is_greek_upper_def
  is_greek_lower_def is_cased_def is_case_ignorable_def

lemma str_includes_lowered:
  "str_includes (toLowerCase s) (toLowerCase q) \<longleftrightarrow> lowered_substring toLowerCase q s"
  by (simp add: str_includes_sublist lowered_substring_def)

lemma matchItem_lowered:
  "matchItem toLowerCase it query \<longleftrightarrow>
     lowered_substring toLowerCase query (or_empty (item_name it)) \<or>
     (\<exists>x\<in>set (or_nil (options it)).
        lowered_substring toLowerCase query (or_empty (model x)) \<or>
        lowered_substring toLowerCase query (or_empty (store x)))"
  by (simp add: matchItem_def Let_def str_includes_lowered list_ex_iff)

lemma length_patch_ids: "length (patch_ids f n xs) = length xs"
  by (induction xs arbitrary: n) simp_all

lemma nth_patch_ids:
  "j < length xs \<Longrightarrow>
     patch_ids f n xs ! j =
       (if has_id (xs ! j) then xs ! j
        else (xs ! j)\<lparr>opt_id := Some (f (n + length (filter (\<lambda>x. \<not> has_id x) (take j xs))))\<rparr>)"
proof (induction xs arbitrary: n j)
  case Nil
  then show ?case by simp
next
  case (Cons x xs)
  show ?case
  proof (cases j)
    case 0
    then show ?thesis by simp
  next
    case (Suc j')
    with Cons.prems have "j' < length xs" by simp
    from Cons.IH [OF this] Suc show ?thesis by simp
  qed
qed

lemma patch_ids_all_have_id:
  "\<forall>n. f n \<noteq> [] \<Longrightarrow> \<forall>x\<in>set (patch_ids f n xs). has_id x"
  by (induction xs arbitrary: n) (simp_all add: has_id_def)

lemma calls_increase:
  assumes "j < k" and "k < length xs" and "P (xs ! j)"
  shows "length (filter P (take j xs)) < length (filter P (take k xs))"
proof -
  have "j < length (take k xs)" using assms by simp
  then have "take k xs = take j (take k xs) @ take k xs ! j # drop (Suc j) (take k xs)"
    by (rule id_take_nth_drop)
  moreover have "take j (take k xs) = take j xs" using assms by (simp add: min_def)
  moreover have "take k xs ! j = xs ! j" using assms by simp
  ultimately have "take k xs = take j xs @ xs ! j # drop (Suc j) (take k xs)" by simp
  then have "filter P (take k xs) =
      filter P (take j xs) @ xs ! j # filter P (drop (Suc j) (take k xs))"
    using assms(3) by (metis filter.simps(2) filter_append)
  then show ?thesis by simp
qed

lemma updateItem_persists:
  assumes "user st = Some uid" and "\<not> isReadOnly st" and "write_ok e"
  shows "read_key (remote (updateItem e itemId u st)) (UserDoc uid) doc_items =
           Some (items (updateItem e itemId u st))"
  using assms
  by (simp add: updateItem_def Let_def saveData_cases saveData_local read_key_setDoc_same merge_writes
      build_updates_keys provided_def split: option.splits)

lemma backfill_effect_done:
  assumes "selected_options st = Some os" and "\<forall>x\<in>set os. has_id x"
  shows "backfill_effect e st = st"
  using assms
  by (auto simp add: backfill_effect_def selected_options_def list_ex_iff split: option.splits)


lemma filter_split_at:
  assumes "i < length xs"
  shows "filter P xs = filter P (take i xs) @ filter P [xs ! i] @ filter P (drop (Suc i) xs)"
proof -
  have "filter P xs = filter P (take i xs @ xs ! i # drop (Suc i) xs)"
    using assms by (simp only: id_take_nth_drop [symmetric])
  then show ?thesis by simp
qed

lemma filter_update_split:
  assumes "i < length xs"
  shows "filter P (xs[i := y]) = filter P (take i xs) @ filter P [y] @ filter P (drop (Suc i) xs)"
proof -
  have "xs[i := y] = take i xs @ y # drop (Suc i) xs"
    using assms by (rule upd_conv_take_nth_drop)
  then show ?thesis by simp
qed

lemma winners_switch_off_le:
  assumes "i < length os"
  shows "winners (os[i := (os ! i)\<lparr>winner := False\<rparr>]) \<le> winners os"
  unfolding winners_def
  by (simp add: filter_update_split [OF assms] filter_split_at [OF assms, of winner])

lemma winners_switch_off_zero:
  assumes "i < length os" and "winner (os ! i)" and "winners os \<le> 1"
  shows "winners (os[i := (os ! i)\<lparr>winner := False\<rparr>]) = 0"
  using assms(2,3) unfolding winners_def
  by (simp add: filter_update_split [OF assms(1)] filter_split_at [OF assms(1), of winner])

lemma winners_toggle_on:
  assumes "idx < length os" and "\<not> winner (os ! idx)"
  shows "winners (toggle_winner idx os) = 1"
proof -
  have "filter winner (toggle_winner idx os) = [toggle_winner idx os ! idx]"
  proof (rule filter_single)
    show "idx < length (toggle_winner idx os)" using assms by (simp add: length_toggle_winner)
    show "\<forall>j<length (toggle_winner idx os). winner (toggle_winner idx os ! j) \<longleftrightarrow> j = idx"
      using assms by (simp add: length_toggle_winner nth_toggle_winner_on)
  qed
  then show ?thesis by (simp add: winners_def)
qed

lemma winners_toggle_le:
  assumes "idx < length os" and "winners os \<le> 1"
  shows "winners (toggle_winner idx os) \<le> 1"
proof (cases "winner (os ! idx)")
  case True
  have "winners (os[idx := (os ! idx)\<lparr>winner := False\<rparr>]) \<le> winners os"
    using assms(1) by (rule winners_switch_off_le)
  then show ?thesis using True assms by (simp add: toggle_winner_off)
next
  case False
  then show ?thesis using assms by (simp add: winners_toggle_on)
qed

lemma winner_onClick_Inr:
  assumes "winner_onClick e idx st = Inr st'" and "selected_options st = Some os"
  shows "idx < length os \<and> selected_options st' = Some (toggle_winner idx os)"
  using assms
  by (auto simp add: winner_onClick_def selected_options_def selectedItem_updateItem
      apply_only_options split: option.splits if_splits)

lemma winner_onClick_ok:
  assumes "selected_options st = Some os" and "idx < length os"
  shows "\<exists>st'. winner_onClick e idx st = Inr st' \<and> selected_options st' = Some (toggle_winner idx os)"
  using assms
  by (auto simp add: winner_onClick_def selected_options_def selectedItem_updateItem
      apply_only_options split: option.splits)

lemma winner_onClicks_invariant:
  assumes "winner_onClicks e idxs st = Inr st'" and "selected_options st = Some os"
    and "winners os \<le> 1"
  shows "\<exists>os'. selected_options st' = Some os' \<and> length os' = length os \<and> winners os' \<le> 1"
  using assms
proof (induction idxs arbitrary: st os)
  case Nil
  then show ?case by simp
next
  case (Cons idx idxs)
  from Cons.prems(1) obtain st1 where
      c: "winner_onClick e idx st = Inr st1" and r: "winner_onClicks e idxs st1 = Inr st'"
    by (auto split: sum.splits)
  from winner_onClick_Inr [OF c Cons.prems(2)]
  have i: "idx < length os" and s1: "selected_options st1 = Some (toggle_winner idx os)"
    by simp_all
  have w1: "winners (toggle_winner idx os) \<le> 1"
    using i Cons.prems(3) by (rule winners_toggle_le)
  from Cons.IH [OF r s1 w1] show ?case by (simp add: length_toggle_winner)
qed

lemma some_winner:
  assumes "winners os \<noteq> 0"
  shows "\<exists>idx<length os. winner (os ! idx)"
proof -
  from assms have "filter winner os \<noteq> []" by (simp add: winners_def)
  then obtain x where "x \<in> set os" and "winner x" by (auto simp add: filter_empty_conv)
  then show ?thesis by (auto simp add: in_set_conv_nth)
qed

lemma zero_winners_reachable:
  assumes "selected_options st = Some os" and "winners os \<le> 1"
  shows "\<exists>idxs st' os'. winner_onClicks e idxs st = Inr st' \<and> selected_options st' = Some os' \<and>
           winners os' = 0"
proof (cases "winners os = 0")
  case True
  have "winner_onClicks e [] st = Inr st" by simp
  with assms(1) True show ?thesis by blast
next
  case False
  then obtain idx where i: "idx < length os" and w: "winner (os ! idx)"
    using some_winner by blast
  from winner_onClick_ok [OF assms(1) i] obtain st' where
      c: "winner_onClick e idx st = Inr st'"
      and s: "selected_options st' = Some (toggle_winner idx os)"
    by blast
  have "winner_onClicks e [idx] st = Inr st'" using c by simp
  moreover have "winners (toggle_winner idx os) = 0"
    using i w assms(2) by (simp add: toggle_winner_off winners_switch_off_zero)
  ultimately show ?thesis using s by blast
qed


section \<open>Properties\<close>

subsection \<open>C1: switching a winner on\<close>

text \<open>
  C1. When the Trophy button of option \<open>idx\<close> of the selected item is clicked while that
  option is not the winner, the handler succeeds, and in the options list it hands to
  \<open>updateItem\<close> option \<open>idx\<close> is the one and only option with \<open>winner\<close> true: every
  other option has \<open>winner\<close> false and no other field of any option changes. The same
  list becomes the options of the selection and of every item of the collection with the
  selected identifier, in that one update.
\<close>

theorem winner_set_exactly_one:
  assumes "selectedItem st = Some sel" and "options sel = Some os"
    and "idx < length os" and "\<not> winner (os ! idx)"
  shows "\<exists>st' os'. winner_onClick e idx st = Inr st' \<and> selected_options st' = Some os' \<and>
           length os' = length os \<and>
           (\<forall>j<length os. os' ! j = (os ! j)\<lparr>winner := (j = idx)\<rparr>) \<and>
           filter winner os' = [os' ! idx] \<and> winners os' = 1 \<and>
           (\<forall>i\<in>set (items st'). item_id i = item_id sel \<longrightarrow> options i = Some os')"
proof -
  let ?os' = "toggle_winner idx os"
  let ?st' = "updateItem e (item_id sel) (only_options ?os') st"
  have r: "winner_onClick e idx st = Inr ?st'"
    using assms by (simp add: winner_onClick_def)
  have s: "selected_options ?st' = Some ?os'"
    using assms by (simp add: selected_options_def selectedItem_updateItem apply_only_options)
  have l: "length ?os' = length os"
    by (rule length_toggle_winner)
  have n: "\<forall>j<length os. ?os' ! j = (os ! j)\<lparr>winner := (j = idx)\<rparr>"
    using assms by (simp add: nth_toggle_winner_on)
  have f: "filter winner ?os' = [?os' ! idx]"
  proof (rule filter_single)
    show "idx < length ?os'" using assms l by simp
    show "\<forall>j<length ?os'. winner (?os' ! j) \<longleftrightarrow> j = idx" using n l by simp
  qed
  have w: "winners ?os' = 1"
    using f by (simp add: winners_def)
  have i: "\<forall>i\<in>set (items ?st'). item_id i = item_id sel \<longrightarrow> options i = Some ?os'"
    by (auto simp: items_updateItem apply_only_options)
  show ?thesis using r s l n f w i by blast
qed

text \<open>The hypotheses hold for a two-option item whose second option is the winner.\<close>

theorem winner_set_exactly_one_witness:
  "selectedItem (example_state [mk_opt None ''A'' ''X'' False, mk_opt None ''B'' ''Y'' True])
     = Some (example_item [mk_opt None ''A'' ''X'' False, mk_opt None ''B'' ''Y'' True]) \<and>
   options (example_item [mk_opt None ''A'' ''X'' False, mk_opt None ''B'' ''Y'' True])
     = Some [mk_opt None ''A'' ''X'' False, mk_opt None ''B'' ''Y'' True] \<and>
   0 < length [mk_opt None ''A'' ''X'' False, mk_opt None ''B'' ''Y'' True] \<and>
   \<not> winner ([mk_opt None ''A'' ''X'' False, mk_opt None ''B'' ''Y'' True] ! 0) \<and>
   (\<exists>st' os'. winner_onClick example_env 0
        (example_state [mk_opt None ''A'' ''X'' False, mk_opt None ''B'' ''Y'' True]) = Inr st' \<and>
      selected_options st' = Some os' \<and> map winner os' = [True, False])"
proof -
  let ?os = "[mk_opt None ''A'' ''X'' False, mk_opt None ''B'' ''Y'' True]"
  have h1: "selectedItem (example_state ?os) = Some (example_item ?os)"
    by (simp add: example_state_def)
  have h2: "options (example_item ?os) = Some ?os"
    by (simp add: example_item_def)
  have h3: "0 < length ?os" by simp
  have h4: "\<not> winner (?os ! 0)" by (simp add: mk_opt_def)
  from winner_set_exactly_one [OF h1 h2 h3 h4, of example_env]
  obtain st' os' where c: "winner_onClick example_env 0 (example_state ?os) = Inr st'"
      "selected_options st' = Some os'" "length os' = length ?os"
      "\<forall>j<length ?os. os' ! j = (?os ! j)\<lparr>winner := (j = 0)\<rparr>"
    by blast
  have m: "map winner os' = [True, False]"
    using c(3,4) by (simp add: list_eq_iff_nth_eq less_Suc_eq mk_opt_def)
  have r: "\<exists>st' os'. winner_onClick example_env 0 (example_state ?os) = Inr st' \<and>
      selected_options st' = Some os' \<and> map winner os' = [True, False]"
    using c(1,2) m by (intro exI conjI)
  show ?thesis
    by (rule conjI [OF h1 conjI [OF h2 conjI [OF h3 conjI [OF h4 r]]]])
qed

subsection \<open>C2: a write touches only the provided keys\<close>

text \<open>
  C2. For every call of \<open>saveData\<close>: a top-level collection key whose argument is
  \<open>undefined\<close> or \<open>null\<close> reads the same afterwards as before, in every document of
  the store. When the write takes place (a user, a session that is not read-only, an
  accepted write), every provided key of the user's document holds the provided value,
  \<open>lastUpdated\<close> holds the time of the call, and no other document changes. Whenever
  the store changes at all, \<open>lastUpdated\<close> has been stamped. The local state is not
  touched.
\<close>

theorem saveData_sparse_merge:
  assumes "st' = saveData e newSpaces newItems newGroceries newRepairs st"
  shows "(newSpaces = Undefined \<or> newSpaces = Null \<longrightarrow>
            (\<forall>p. read_key (remote st') p doc_spaces = read_key (remote st) p doc_spaces)) \<and>
         (newItems = Undefined \<or> newItems = Null \<longrightarrow>
            (\<forall>p. read_key (remote st') p doc_items = read_key (remote st) p doc_items)) \<and>
         (newGroceries = Undefined \<or> newGroceries = Null \<longrightarrow>
            (\<forall>p. read_key (remote st') p doc_groceries = read_key (remote st) p doc_groceries)) \<and>
         (newRepairs = Undefined \<or> newRepairs = Null \<longrightarrow>
            (\<forall>p. read_key (remote st') p doc_repairs = read_key (remote st) p doc_repairs)) \<and>
         (\<forall>uid. user st = Some uid \<and> \<not> isReadOnly st \<and> write_ok e \<longrightarrow>
            read_key (remote st') (UserDoc uid) doc_lastUpdated = Some (now e) \<and>
            (\<forall>v. newSpaces = Val v \<longrightarrow> read_key (remote st') (UserDoc uid) doc_spaces = Some v) \<and>
            (\<forall>v. newItems = Val v \<longrightarrow> read_key (remote st') (UserDoc uid) doc_items = Some v) \<and>
            (\<forall>v. newGroceries = Val v \<longrightarrow>
                 read_key (remote st') (UserDoc uid) doc_groceries = Some v) \<and>
            (\<forall>v. newRepairs = Val v \<longrightarrow> read_key (remote st') (UserDoc uid) doc_repairs = Some v) \<and>
            (\<forall>p. p \<noteq> UserDoc uid \<longrightarrow> remote st' p = remote st p)) \<and>
         (remote st' \<noteq> remote st \<longrightarrow>
            (\<exists>uid. user st = Some uid \<and>
               read_key (remote st') (UserDoc uid) doc_lastUpdated = Some (now e))) \<and>
         st'\<lparr>remote := remote st\<rparr> = st"
proof -
  have k1: "newSpaces = Undefined \<or> newSpaces = Null \<longrightarrow>
            (\<forall>p. read_key (remote st') p doc_spaces = read_key (remote st) p doc_spaces)"
    unfolding assms
    by (intro impI allI saveData_keeps_key)
       (auto simp add: build_updates_keys empty_document_keys merge_keeps provided_def)
  have k2: "newItems = Undefined \<or> newItems = Null \<longrightarrow>
            (\<forall>p. read_key (remote st') p doc_items = read_key (remote st) p doc_items)"
    unfolding assms
    by (intro impI allI saveData_keeps_key)
       (auto simp add: build_updates_keys empty_document_keys merge_keeps provided_def)
  have k3: "newGroceries = Undefined \<or> newGroceries = Null \<longrightarrow>
            (\<forall>p. read_key (remote st') p doc_groceries = read_key (remote st) p doc_groceries)"
    unfolding assms
    by (intro impI allI saveData_keeps_key)
       (auto simp add: build_updates_keys empty_document_keys merge_keeps provided_def)
  have k4: "newRepairs = Undefined \<or> newRepairs = Null \<longrightarrow>
            (\<forall>p. read_key (remote st') p doc_repairs = read_key (remote st) p doc_repairs)"
    unfolding assms
    by (intro impI allI saveData_keeps_key)
       (auto simp add: build_updates_keys empty_document_keys merge_keeps provided_def)
  have w: "\<forall>uid. user st = Some uid \<and> \<not> isReadOnly st \<and> write_ok e \<longrightarrow>
            read_key (remote st') (UserDoc uid) doc_lastUpdated = Some (now e) \<and>
            (\<forall>v. newSpaces = Val v \<longrightarrow> read_key (remote st') (UserDoc uid) doc_spaces = Some v) \<and>
            (\<forall>v. newItems = Val v \<longrightarrow> read_key (remote st') (UserDoc uid) doc_items = Some v) \<and>
            (\<forall>v. newGroceries = Val v \<longrightarrow>
                 read_key (remote st') (UserDoc uid) doc_groceries = Some v) \<and>
            (\<forall>v. newRepairs = Val v \<longrightarrow> read_key (remote st') (UserDoc uid) doc_repairs = Some v) \<and>
            (\<forall>p. p \<noteq> UserDoc uid \<longrightarrow> remote st' p = remote st p)"
    unfolding assms
    by (simp add: saveData_cases read_key_setDoc_same merge_writes build_updates_keys
        provided_def setDoc_merge_other)
  have s: "remote st' \<noteq> remote st \<longrightarrow>
            (\<exists>uid. user st = Some uid \<and>
               read_key (remote st') (UserDoc uid) doc_lastUpdated = Some (now e))"
    unfolding assms
    by (auto simp add: saveData_cases read_key_setDoc_same merge_writes build_updates_keys)
  have l: "st'\<lparr>remote := remote st\<rparr> = st"
    unfolding assms by (simp add: saveData_cases)
  show ?thesis using k1 k2 k3 k4 w s l by (intro conjI)
qed

text \<open>
  The round trip of the specification: the document holds groceries, only items are
  persisted, and the groceries read back unchanged.
\<close>

theorem saveData_sparse_merge_witness:
  "read_key (remote synced_state) (UserDoc ''u1'') doc_groceries = Some [example_entry] \<and>
   read_key (remote (saveData example_env Null (Val [example_item []]) Null Undefined synced_state))
      (UserDoc ''u1'') doc_groceries = Some [example_entry] \<and>
   read_key (remote (saveData example_env Null (Val [example_item []]) Null Undefined synced_state))
      (UserDoc ''u1'') doc_items = Some [example_item []] \<and>
   read_key (remote (saveData example_env Null (Val [example_item []]) Null Undefined synced_state))
      (UserDoc ''u1'') doc_lastUpdated = Some 1700000000000"
proof -
  let ?st' = "saveData example_env Null (Val [example_item []]) Null Undefined synced_state"
  note t = saveData_sparse_merge [where st = synced_state and e = example_env
      and newSpaces = Null and newItems = "Val [example_item []]" and newGroceries = Null
      and newRepairs = Undefined, OF refl]
  have before: "read_key (remote synced_state) (UserDoc ''u1'') doc_groceries = Some [example_entry]"
    by (simp add: read_key_def synced_state_def initial_state_def groceries_document_def)
  have pre: "user synced_state = Some ''u1'' \<and> \<not> isReadOnly synced_state \<and> write_ok example_env"
    by (simp add: synced_state_def initial_state_def example_env_def)
  have g: "read_key (remote ?st') (UserDoc ''u1'') doc_groceries = Some [example_entry]"
    using t before by simp
  have i: "read_key (remote ?st') (UserDoc ''u1'') doc_items = Some [example_item []]"
    using t pre by blast
  have "read_key (remote ?st') (UserDoc ''u1'') doc_lastUpdated = Some (now example_env)"
    using t pre by blast
  then have u: "read_key (remote ?st') (UserDoc ''u1'') doc_lastUpdated = Some 1700000000000"
    by (simp add: example_env_def)
  show ?thesis by (rule conjI [OF before conjI [OF g conjI [OF i u]]])
qed

subsection \<open>C3: no write without a user or in a read-only session\<close>

text \<open>
  C3. Without a user, or in a read-only session, \<open>saveData\<close> returns the state it was
  given, whatever its arguments: the remote store, and with it the remote document, is
  unchanged.
\<close>

theorem saveData_noop:
  assumes "user st = None \<or> isReadOnly st"
  shows "saveData e newSpaces newItems newGroceries newRepairs st = st"
  using assms by (auto simp add: saveData_def split: option.splits)

text \<open>Both conditions, each on a state that meets only that one.\<close>

theorem saveData_noop_witness:
  "isReadOnly (synced_state\<lparr>isReadOnly := True\<rparr>) \<and>
   saveData example_env Null (Val [example_item []]) Null Undefined
      (synced_state\<lparr>isReadOnly := True\<rparr>) = synced_state\<lparr>isReadOnly := True\<rparr> \<and>
   user (synced_state\<lparr>user := None\<rparr>) = None \<and>
   saveData example_env Null (Val [example_item []]) Null Undefined
      (synced_state\<lparr>user := None\<rparr>) = synced_state\<lparr>user := None\<rparr>"
proof -
  have h1: "isReadOnly (synced_state\<lparr>isReadOnly := True\<rparr>)" by simp
  have h2: "user (synced_state\<lparr>user := None\<rparr>) = None" by simp
  show ?thesis
    using h1 h2 saveData_noop [OF disjI2, OF h1] saveData_noop [OF disjI1, OF h2]
    by (intro conjI)
qed

subsection \<open>C4: a snapshot overwrites only the collections it carries\<close>

text \<open>
  C4. For every snapshot that exists, the subscription handler replaces each of
  \<open>spaces\<close>, \<open>items\<close>, \<open>groceries\<close> and \<open>repairs\<close> that the snapshot carries and
  leaves the others, and every other field of the state except \<open>loading\<close>, as they
  were; a snapshot that does not exist changes only \<open>loading\<close>. For a document
  without a \<open>repairs\<close> key the local repairs stay what they were, and from the
  initial state they are the empty list. The handler is total: no branch fails.
\<close>

theorem onSnapshot_sparse_merge:
  "onSnapshot_handler (Some data) st =
     st\<lparr>spaces := (case doc_spaces data of Some v \<Rightarrow> v | None \<Rightarrow> spaces st),
        items := (case doc_items data of Some v \<Rightarrow> v | None \<Rightarrow> items st),
        groceries := (case doc_groceries data of Some v \<Rightarrow> v | None \<Rightarrow> groceries st),
        repairs := (case doc_repairs data of Some v \<Rightarrow> v | None \<Rightarrow> repairs st),
        loading := False\<rparr> \<and>
   onSnapshot_handler None st = st\<lparr>loading := False\<rparr> \<and>
   (doc_repairs data = None \<longrightarrow>
      repairs (onSnapshot_handler (Some data) st) = repairs st \<and>
      repairs (onSnapshot_handler (Some data) (initial_state r)) = [])"
  by (simp add: onSnapshot_handler_def initial_state_def split: option.splits)

text \<open>A legacy document with groceries only, delivered to the initial state.\<close>

theorem onSnapshot_sparse_merge_witness:
  "doc_repairs groceries_document = None \<and>
   repairs (onSnapshot_handler (Some groceries_document) (initial_state (\<lambda>p. None))) = [] \<and>
   groceries (onSnapshot_handler (Some groceries_document) (initial_state (\<lambda>p. None)))
     = [example_entry] \<and>
   spaces (onSnapshot_handler (Some groceries_document) (initial_state (\<lambda>p. None)))
     = DEFAULT_SPACES"
proof -
  have h: "doc_repairs groceries_document = None"
    by (simp add: groceries_document_def empty_document_def)
  note t = onSnapshot_sparse_merge [of groceries_document "initial_state (\<lambda>p. None)" "\<lambda>p. None"]
  have r: "repairs (onSnapshot_handler (Some groceries_document) (initial_state (\<lambda>p. None))) = []"
    using t h by blast
  have eq: "onSnapshot_handler (Some groceries_document) (initial_state (\<lambda>p. None)) =
     (initial_state (\<lambda>p. None))\<lparr>spaces := (case doc_spaces groceries_document of Some v \<Rightarrow> v | None \<Rightarrow> spaces (initial_state (\<lambda>p. None))),
        items := (case doc_items groceries_document of Some v \<Rightarrow> v | None \<Rightarrow> items (initial_state (\<lambda>p. None))),
        groceries := (case doc_groceries groceries_document of Some v \<Rightarrow> v | None \<Rightarrow> groceries (initial_state (\<lambda>p. None))),
        repairs := (case doc_repairs groceries_document of Some v \<Rightarrow> v | None \<Rightarrow> repairs (initial_state (\<lambda>p. None))),
        loading := False\<rparr>"
    using t by blast
  have g: "groceries (onSnapshot_handler (Some groceries_document) (initial_state (\<lambda>p. None)))
     = [example_entry]"
    unfolding eq by (simp add: groceries_document_def)
  have s: "spaces (onSnapshot_handler (Some groceries_document) (initial_state (\<lambda>p. None)))
     = DEFAULT_SPACES"
    unfolding eq by (simp add: groceries_document_def empty_document_def initial_state_def)
  show ?thesis by (rule conjI [OF h conjI [OF r conjI [OF g s]]])
qed

subsection \<open>C7: deleting the selected item\<close>

text \<open>
  C7. After \<open>deleteItem(itemId)\<close> the items collection is the old one without the
  items of that identifier, so no item of it has the deleted identifier; and when the
  selected item has the deleted identifier, the selection is \<open>null\<close> afterwards.
\<close>

theorem deleteItem_removes_and_clears:
  "items (deleteItem e itemId st) = filter (\<lambda>i. item_id i \<noteq> itemId) (items st) \<and>
   (\<forall>i\<in>set (items (deleteItem e itemId st)). item_id i \<noteq> itemId) \<and>
   ((\<exists>sel. selectedItem st = Some sel \<and> item_id sel = itemId) \<longrightarrow>
      selectedItem (deleteItem e itemId st) = None)"
  by (simp add: items_deleteItem selectedItem_deleteItem)

text \<open>Deleting the one item of the collection while it is selected.\<close>

theorem deleteItem_removes_and_clears_witness:
  "selectedItem (example_state []) = Some (example_item []) \<and>
   item_id (example_item []) = ''i1'' \<and>
   items (example_state []) = [example_item []] \<and>
   items (deleteItem example_env ''i1'' (example_state [])) = [] \<and>
   selectedItem (deleteItem example_env ''i1'' (example_state [])) = None"
proof -
  have h1: "selectedItem (example_state []) = Some (example_item [])"
    by (simp add: example_state_def)
  have h2: "item_id (example_item []) = ''i1''"
    by (simp add: example_item_def)
  have h3: "items (example_state []) = [example_item []]"
    by (simp add: example_state_def)
  note t = deleteItem_removes_and_clears [of example_env "''i1''" "example_state []"]
  have "items (deleteItem example_env ''i1'' (example_state [])) =
      filter (\<lambda>i. item_id i \<noteq> ''i1'') (items (example_state []))"
    using t by blast
  then have c1: "items (deleteItem example_env ''i1'' (example_state [])) = []"
    by (simp add: h3 h2)
  have c2: "selectedItem (deleteItem example_env ''i1'' (example_state [])) = None"
    using t h1 h2 by blast
  show ?thesis by (rule conjI [OF h1 conjI [OF h2 conjI [OF h3 conjI [OF c1 c2]]]])
qed

subsection \<open>C9: deleting any item clears the selection\<close>

text \<open>
  C9. \<open>deleteItem(itemId)\<close> sets the selection to \<open>null\<close> unconditionally, also
  when the selected item has another identifier than the deleted one.
\<close>

theorem deleteItem_clears_selection_always:
  "selectedItem (deleteItem e itemId st) = None"
  by (rule selectedItem_deleteItem)

text \<open>The selection is cleared although the deleted identifier is not the selected one.\<close>

theorem deleteItem_clears_selection_always_witness:
  "selectedItem (example_state []) = Some (example_item []) \<and>
   item_id (example_item []) \<noteq> ''other'' \<and>
   selectedItem (deleteItem example_env ''other'' (example_state [])) = None"
proof -
  have h1: "selectedItem (example_state []) = Some (example_item [])"
    by (simp add: example_state_def)
  have h2: "item_id (example_item []) \<noteq> ''other''"
    by (simp add: example_item_def)
  show ?thesis
    by (rule conjI [OF h1 conjI [OF h2
          deleteItem_clears_selection_always [of example_env "''other''" "example_state []"]]])
qed

subsection \<open>C5: dropping a dragged option\<close>

text \<open>
  C5. When no drag is in progress, or the drop index is the drag index, the drop handler
  returns the state unchanged. When option \<open>i\<close> of the selected item is dragged and
  dropped on another index \<open>j\<close>, both within the list, the handler succeeds and the
  new options list is the old one with the option at \<open>i\<close> removed and put back at
  index \<open>j\<close>: it is a permutation of the old list (the same multiset of options, so
  every option with all its fields), of the same length, the dragged option sits at
  \<open>j\<close>, and the other options keep their relative order. The drag index is reset, and
  the list becomes the options of the selection and of the items with its identifier.
\<close>

theorem handleOptionDrop_permutes:
  "(draggedOptionIdx st = None \<or> draggedOptionIdx st = Some j \<longrightarrow>
      handleOptionDrop e j st = Inr st) \<and>
   (selectedItem st = Some sel \<and> options sel = Some os \<and> draggedOptionIdx st = Some i \<and>
    i < length os \<and> j < length os \<and> i \<noteq> j \<longrightarrow>
      (\<exists>st' os'. handleOptionDrop e j st = Inr st' \<and>
         selected_options st' = Some os' \<and>
         os' = splice_insert j (os ! i) (take i os @ drop (Suc i) os) \<and>
         mset os' = mset os \<and> length os' = length os \<and> os' ! j = os ! i \<and>
         take j os' @ drop (Suc j) os' = take i os @ drop (Suc i) os \<and>
         draggedOptionIdx st' = None \<and>
         (\<forall>k\<in>set (items st'). item_id k = item_id sel \<longrightarrow> options k = Some os')))"
proof (intro conjI impI)
  assume "draggedOptionIdx st = None \<or> draggedOptionIdx st = Some j"
  then show "handleOptionDrop e j st = Inr st"
    by (auto simp add: handleOptionDrop_def)
next
  assume a: "selectedItem st = Some sel \<and> options sel = Some os \<and>
    draggedOptionIdx st = Some i \<and> i < length os \<and> j < length os \<and> i \<noteq> j"
  let ?rest = "take i os @ drop (Suc i) os"
  let ?os' = "splice_insert j (os ! i) ?rest"
  let ?st' = "(updateItem e (item_id sel) (only_options ?os') st)\<lparr>draggedOptionIdx := None\<rparr>"
  have len: "length ?rest = length os - 1" using a by auto
  have j: "j \<le> length ?rest" using a len by auto
  have r: "handleOptionDrop e j st = Inr ?st'"
    using a by (simp add: handleOptionDrop_def splice_remove_in_range)
  have s: "selected_options ?st' = Some ?os'"
    using a by (simp add: selected_options_def selectedItem_updateItem apply_only_options)
  have m: "mset ?os' = mset os" using a by (simp add: mset_remove_insert)
  have l: "length ?os' = length os" using a len by (auto simp add: length_splice_insert)
  have n: "?os' ! j = os ! i" using j by (rule nth_splice_insert)
  have t: "take j ?os' @ drop (Suc j) ?os' = ?rest" using j by (rule remove_splice_insert)
  have d: "draggedOptionIdx ?st' = None" by simp
  have k: "\<forall>k\<in>set (items ?st'). item_id k = item_id sel \<longrightarrow> options k = Some ?os'"
    by (auto simp: items_updateItem apply_only_options)
  show "\<exists>st' os'. handleOptionDrop e j st = Inr st' \<and>
         selected_options st' = Some os' \<and>
         os' = splice_insert j (os ! i) (take i os @ drop (Suc i) os) \<and>
         mset os' = mset os \<and> length os' = length os \<and> os' ! j = os ! i \<and>
         take j os' @ drop (Suc j) os' = take i os @ drop (Suc i) os \<and>
         draggedOptionIdx st' = None \<and>
         (\<forall>k\<in>set (items st'). item_id k = item_id sel \<longrightarrow> options k = Some os')"
    using r s m l n t d k by blast
qed

text \<open>Dragging the first of three options onto the last one, and onto itself.\<close>

theorem handleOptionDrop_permutes_witness:
  "selectedItem ((example_state [mk_opt None ''A'' ''X'' False, mk_opt None ''B'' ''Y'' True,
       mk_opt None ''C'' ''Z'' False])\<lparr>draggedOptionIdx := Some 0\<rparr>)
     = Some (example_item [mk_opt None ''A'' ''X'' False, mk_opt None ''B'' ''Y'' True,
       mk_opt None ''C'' ''Z'' False]) \<and>
   (\<exists>st'. handleOptionDrop example_env 2
        ((example_state [mk_opt None ''A'' ''X'' False, mk_opt None ''B'' ''Y'' True,
           mk_opt None ''C'' ''Z'' False])\<lparr>draggedOptionIdx := Some 0\<rparr>) = Inr st' \<and>
      selected_options st' = Some [mk_opt None ''B'' ''Y'' True, mk_opt None ''C'' ''Z'' False,
        mk_opt None ''A'' ''X'' False]) \<and>
   handleOptionDrop example_env 0
        ((example_state [mk_opt None ''A'' ''X'' False, mk_opt None ''B'' ''Y'' True,
           mk_opt None ''C'' ''Z'' False])\<lparr>draggedOptionIdx := Some 0\<rparr>)
     = Inr ((example_state [mk_opt None ''A'' ''X'' False, mk_opt None ''B'' ''Y'' True,
           mk_opt None ''C'' ''Z'' False])\<lparr>draggedOptionIdx := Some 0\<rparr>)"
proof -
  let ?os = "[mk_opt None ''A'' ''X'' False, mk_opt None ''B'' ''Y'' True,
       mk_opt None ''C'' ''Z'' False]"
  let ?st = "(example_state ?os)\<lparr>draggedOptionIdx := Some 0\<rparr>"
  have h1: "selectedItem ?st = Some (example_item ?os)"
    by (simp add: example_state_def)
  have h2: "options (example_item ?os) = Some ?os"
    by (simp add: example_item_def)
  have h3: "draggedOptionIdx ?st = Some 0" by simp
  note t = handleOptionDrop_permutes [of ?st _ example_env "example_item ?os" ?os 0]
  have hyp: "selectedItem ?st = Some (example_item ?os) \<and> options (example_item ?os) = Some ?os \<and>
      draggedOptionIdx ?st = Some 0 \<and> 0 < length ?os \<and> 2 < length ?os \<and> (0::nat) \<noteq> 2"
    using h1 h2 h3 by simp
  from t [of 2] have
    "selectedItem ?st = Some (example_item ?os) \<and> options (example_item ?os) = Some ?os \<and>
      draggedOptionIdx ?st = Some 0 \<and> 0 < length ?os \<and> 2 < length ?os \<and> (0::nat) \<noteq> 2 \<longrightarrow>
     (\<exists>st' os'. handleOptionDrop example_env 2 ?st = Inr st' \<and>
         selected_options st' = Some os' \<and>
         os' = splice_insert 2 (?os ! 0) (take 0 ?os @ drop (Suc 0) ?os) \<and>
         mset os' = mset ?os \<and> length os' = length ?os \<and> os' ! 2 = ?os ! 0 \<and>
         take 2 os' @ drop (Suc 2) os' = take 0 ?os @ drop (Suc 0) ?os \<and>
         draggedOptionIdx st' = None \<and>
         (\<forall>k\<in>set (items st'). item_id k = item_id (example_item ?os) \<longrightarrow> options k = Some os'))"
    by (rule conjunct2)
  from mp [OF this hyp] obtain st' os' where
      r: "handleOptionDrop example_env 2 ?st = Inr st'"
      and so: "selected_options st' = Some os'"
      and eq: "os' = splice_insert 2 (?os ! 0) (take 0 ?os @ drop (Suc 0) ?os)"
    by (elim exE conjE)
  have "os' = [mk_opt None ''B'' ''Y'' True, mk_opt None ''C'' ''Z'' False,
        mk_opt None ''A'' ''X'' False]"
    unfolding eq by (simp add: splice_insert_def)
  with r so have c: "\<exists>st'. handleOptionDrop example_env 2 ?st = Inr st' \<and>
      selected_options st' = Some [mk_opt None ''B'' ''Y'' True, mk_opt None ''C'' ''Z'' False,
        mk_opt None ''A'' ''X'' False]"
    by (intro exI [of _ st'] conjI) simp_all
  have n: "handleOptionDrop example_env 0 ?st = Inr ?st"
    using t [of 0, THEN conjunct1] h3 by simp
  show ?thesis by (rule conjI [OF h1 conjI [OF c n]])
qed

subsection \<open>C6: what the search matches\<close>

text \<open>
  C6, as amended. Whatever \<open>toLowerCase\<close> computes: \<open>matchItem\<close> holds for an item
  and a query exactly when the lower-cased query occurs as a contiguous block in the
  lower-cased name of the item, or in the lower-cased model or store of one of its
  options (a missing text counts as the empty string); in particular an item is matched
  through the store of an option when neither that option's model nor the item's name
  match. An item is in the filtered items exactly when it is in the collection and
  matches; a space is in the filtered spaces exactly when it is in the collection and its
  name matches in the same way or some item of the collection with its \<open>spaceId\<close>
  matches. When \<open>toLowerCase\<close> lower-cases ASCII strings as ECMA-262 says, and the
  query and the texts are ASCII, matching is the query being a case-insensitive substring
  of the text.
\<close>

theorem search_filter_iff:
  "(matchItem toLowerCase it query \<longleftrightarrow>
      lowered_substring toLowerCase query (or_empty (item_name it)) \<or>
      (\<exists>x\<in>set (or_nil (options it)).
         lowered_substring toLowerCase query (or_empty (model x)) \<or>
         lowered_substring toLowerCase query (or_empty (store x)))) \<and>
   (\<forall>x\<in>set (or_nil (options it)).
      lowered_substring toLowerCase query (or_empty (store x)) \<and>
      \<not> lowered_substring toLowerCase query (or_empty (model x)) \<and>
      \<not> lowered_substring toLowerCase query (or_empty (item_name it)) \<longrightarrow>
      matchItem toLowerCase it query) \<and>
   (it \<in> set (filteredItems toLowerCase st) \<longleftrightarrow>
      it \<in> set (items st) \<and> matchItem toLowerCase it (searchQuery st)) \<and>
   (s \<in> set (filteredSpaces toLowerCase st) \<longleftrightarrow>
      s \<in> set (spaces st) \<and>
      (lowered_substring toLowerCase (searchQuery st) (or_empty (space_name s)) \<or>
       (\<exists>i\<in>set (items st). spaceId i = space_id s \<and> matchItem toLowerCase i (searchQuery st)))) \<and>
   (lowers_ascii toLowerCase \<and> is_ascii query \<and> is_ascii (or_empty (item_name it)) \<and>
    (\<forall>x\<in>set (or_nil (options it)).
       is_ascii (or_empty (model x)) \<and> is_ascii (or_empty (store x))) \<longrightarrow>
      (matchItem toLowerCase it query \<longleftrightarrow>
         ci_substring query (or_empty (item_name it)) \<or>
         (\<exists>x\<in>set (or_nil (options it)).
            ci_substring query (or_empty (model x)) \<or> ci_substring query (or_empty (store x))))) \<and>
   (lowers_ascii toLowerCase \<and> is_ascii (searchQuery st) \<and> is_ascii (or_empty (space_name s)) \<longrightarrow>
      (s \<in> set (filteredSpaces toLowerCase st) \<longleftrightarrow>
         s \<in> set (spaces st) \<and>
         (ci_substring (searchQuery st) (or_empty (space_name s)) \<or>
          (\<exists>i\<in>set (items st). spaceId i = space_id s \<and> matchItem toLowerCase i (searchQuery st)))))"
proof -
  have a: "matchItem toLowerCase it query \<longleftrightarrow>
      lowered_substring toLowerCase query (or_empty (item_name it)) \<or>
      (\<exists>x\<in>set (or_nil (options it)).
         lowered_substring toLowerCase query (or_empty (model x)) \<or>
         lowered_substring toLowerCase query (or_empty (store x)))"
    by (rule matchItem_lowered)
  have b: "\<forall>x\<in>set (or_nil (options it)).
      lowered_substring toLowerCase query (or_empty (store x)) \<and>
      \<not> lowered_substring toLowerCase query (or_empty (model x)) \<and>
      \<not> lowered_substring toLowerCase query (or_empty (item_name it)) \<longrightarrow>
      matchItem toLowerCase it query"
    using a by blast
  have c: "it \<in> set (filteredItems toLowerCase st) \<longleftrightarrow>
      it \<in> set (items st) \<and> matchItem toLowerCase it (searchQuery st)"
    by (simp add: filteredItems_def)
  have d: "s \<in> set (filteredSpaces toLowerCase st) \<longleftrightarrow>
      s \<in> set (spaces st) \<and>
      (lowered_substring toLowerCase (searchQuery st) (or_empty (space_name s)) \<or>
       (\<exists>i\<in>set (items st). spaceId i = space_id s \<and> matchItem toLowerCase i (searchQuery st)))"
    by (simp add: filteredSpaces_def Let_def str_includes_lowered list_ex_iff)
  have e: "lowers_ascii toLowerCase \<and> is_ascii query \<and> is_ascii (or_empty (item_name it)) \<and>
    (\<forall>x\<in>set (or_nil (options it)).
       is_ascii (or_empty (model x)) \<and> is_ascii (or_empty (store x))) \<longrightarrow>
      (matchItem toLowerCase it query \<longleftrightarrow>
         ci_substring query (or_empty (item_name it)) \<or>
         (\<exists>x\<in>set (or_nil (options it)).
            ci_substring query (or_empty (model x)) \<or> ci_substring query (or_empty (store x))))"
    unfolding a by (auto simp add: lowered_substring_ascii)
  have f: "lowers_ascii toLowerCase \<and> is_ascii (searchQuery st) \<and>
      is_ascii (or_empty (space_name s)) \<longrightarrow>
      (s \<in> set (filteredSpaces toLowerCase st) \<longleftrightarrow>
         s \<in> set (spaces st) \<and>
         (ci_substring (searchQuery st) (or_empty (space_name s)) \<or>
          (\<exists>i\<in>set (items st). spaceId i = space_id s \<and> matchItem toLowerCase i (searchQuery st))))"
    unfolding d by (auto simp add: lowered_substring_ascii)
  show ?thesis using a b c d e f by (intro conjI)
qed

text \<open>
  The query \<open>ikea\<close> against an item named Sofa whose one option has the model Stockholm
  and the store IKEA, with the lower-casing of ASCII and Greek for \<open>toLowerCase\<close>.
\<close>

theorem search_filter_iff_witness:
  "lowers_ascii lower_ascii_greek \<and> is_ascii (units ''ikea'') \<and>
   \<not> ci_substring (units ''ikea'') (or_empty (item_name (example_item [ikea_option]))) \<and>
   \<not> ci_substring (units ''ikea'') (or_empty (model ikea_option)) \<and>
   ci_substring (units ''ikea'') (or_empty (store ikea_option)) \<and>
   matchItem lower_ascii_greek (example_item [ikea_option]) (units ''ikea'') \<and>
   example_item [ikea_option] \<in> set (filteredItems lower_ascii_greek search_state) \<and>
   \<lparr>space_id = ''1'', space_name = Some (units ''Living Room''), space_image = None\<rparr>
      \<in> set (filteredSpaces lower_ascii_greek search_state) \<and>
   \<lparr>space_id = ''2'', space_name = Some (units ''Kitchen''), space_image = None\<rparr>
      \<notin> set (filteredSpaces lower_ascii_greek search_state)"
proof -
  let ?it = "example_item [ikea_option]"
  let ?q = "units ''ikea''"
  let ?living = "\<lparr>space_id = ''1'', space_name = Some (units ''Living Room''), space_image = None\<rparr>"
  let ?kitchen = "\<lparr>space_id = ''2'', space_name = Some (units ''Kitchen''), space_image = None\<rparr>"
  note l = lowers_ascii_model
  have aq: "is_ascii ?q" by (simp add: units_def is_ascii_def)
  have an: "is_ascii (or_empty (item_name ?it))"
    by (simp add: example_item_def or_empty_def units_def is_ascii_def)
  have am: "is_ascii (or_empty (model ikea_option))"
    by (simp add: ikea_option_def mk_opt_def or_empty_def units_def is_ascii_def)
  have as: "is_ascii (or_empty (store ikea_option))"
    by (simp add: ikea_option_def mk_opt_def or_empty_def units_def is_ascii_def)
  have ak: "is_ascii (or_empty (space_name ?kitchen))"
    by (simp add: or_empty_def units_def is_ascii_def)
  have n: "\<not> ci_substring ?q (or_empty (item_name ?it))"
    unfolding lowered_substring_ascii [OF l aq an, symmetric] str_includes_lowered [symmetric]
    by (simp add: example_item_def or_empty_def lower_eval)
  have m: "\<not> ci_substring ?q (or_empty (model ikea_option))"
    unfolding lowered_substring_ascii [OF l aq am, symmetric] str_includes_lowered [symmetric]
    by (simp add: ikea_option_def mk_opt_def or_empty_def lower_eval)
  have s: "ci_substring ?q (or_empty (store ikea_option))"
    unfolding lowered_substring_ascii [OF l aq as, symmetric] str_includes_lowered [symmetric]
    by (simp add: ikea_option_def mk_opt_def or_empty_def lower_eval)
  have nk: "\<not> ci_substring ?q (or_empty (space_name ?kitchen))"
    unfolding lowered_substring_ascii [OF l aq ak, symmetric] str_includes_lowered [symmetric]
    by (simp add: or_empty_def lower_eval)
  have o: "or_nil (options ?it) = [ikea_option]"
    by (simp add: example_item_def or_nil_def)
  have q: "searchQuery search_state = ?q" by (simp add: search_state_def)
  have i: "items search_state = [?it]" by (simp add: search_state_def example_state_def)
  have sp: "spaces search_state = DEFAULT_SPACES"
    by (simp add: search_state_def example_state_def initial_state_def)
  have child: "spaceId ?it = ''1''" by (simp add: example_item_def)
  note t = search_filter_iff [of lower_ascii_greek ?it ?q search_state]
  note t_items = t [THEN conjunct2, THEN conjunct2, THEN conjunct1]
  note t_ascii = t [THEN conjunct2, THEN conjunct2, THEN conjunct2, THEN conjunct2,
      THEN conjunct1]
  note t_spaces = t [THEN conjunct2, THEN conjunct2, THEN conjunct2, THEN conjunct2,
      THEN conjunct2]
  have hyp: "lowers_ascii lower_ascii_greek \<and> is_ascii ?q \<and> is_ascii (or_empty (item_name ?it)) \<and>
    (\<forall>x\<in>set (or_nil (options ?it)).
       is_ascii (or_empty (model x)) \<and> is_ascii (or_empty (store x)))"
    using l aq an am as by (simp add: o)
  have "matchItem lower_ascii_greek ?it ?q \<longleftrightarrow>
         ci_substring ?q (or_empty (item_name ?it)) \<or>
         (\<exists>x\<in>set (or_nil (options ?it)).
            ci_substring ?q (or_empty (model x)) \<or> ci_substring ?q (or_empty (store x)))"
    using hyp by (rule t_ascii [THEN mp])
  then have mi: "matchItem lower_ascii_greek ?it ?q" using s by (simp add: o)
  have fi: "?it \<in> set (filteredItems lower_ascii_greek search_state)"
    unfolding t_items using mi by (simp add: q i)
  have hl: "lowers_ascii lower_ascii_greek \<and> is_ascii (searchQuery search_state) \<and>
      is_ascii (or_empty (space_name ?living))"
    using l aq by (simp add: q or_empty_def units_def is_ascii_def)
  have fs: "?living \<in> set (filteredSpaces lower_ascii_greek search_state)"
    unfolding t_spaces [of ?living, THEN mp, OF hl]
    using mi child by (simp add: q i sp DEFAULT_SPACES_def)
  have hk: "lowers_ascii lower_ascii_greek \<and> is_ascii (searchQuery search_state) \<and>
      is_ascii (or_empty (space_name ?kitchen))"
    using l aq ak by (simp add: q)
  have fk: "?kitchen \<notin> set (filteredSpaces lower_ascii_greek search_state)"
    unfolding t_spaces [of ?kitchen, THEN mp, OF hk]
    using nk child by (simp add: q i)
  show ?thesis
    by (rule conjI [OF l conjI [OF aq conjI [OF n conjI [OF m conjI [OF s conjI [OF mi
          conjI [OF fi conjI [OF fs fk]]]]]]]])
qed

text \<open>
  Without the restriction to ASCII, matching is not being a case-insensitive substring.
  The item is named \<open>U+039F U+0394 U+039F U+03A3\<close> (the Greek word for street, in
  capitals) and the query is the capital sigma \<open>U+03A3\<close>. The query occurs in the name
  as it stands. \<open>toLowerCase\<close> turns the sigma at the end of the name into the final
  sigma \<open>U+03C2\<close> and the query into the small sigma \<open>U+03C3\<close>, so \<open>includes\<close> fails
  and the item is not among the results.
\<close>

theorem search_filter_counterexample:
  "sublist [931] (or_empty (item_name odos_item)) \<and>
   ci_substring [931] (or_empty (item_name odos_item)) \<and>
   lower_ascii_greek (or_empty (item_name odos_item)) = [959, 948, 959, 962] \<and>
   lower_ascii_greek [931] = [963] \<and>
   \<not> matchItem lower_ascii_greek odos_item [931] \<and>
   filteredItems lower_ascii_greek odos_state = []"
proof -
  have nm: "or_empty (item_name odos_item) = [927, 916, 927, 931]"
    by (simp add: odos_item_def or_empty_def)
  have a: "sublist [931] (or_empty (item_name odos_item))"
    unfolding nm str_includes_sublist [symmetric] by simp
  have "list_all2 same_letter [931] [931]" by (simp add: same_letter_def)
  with a have b: "ci_substring [931] (or_empty (item_name odos_item))"
    unfolding ci_substring_def by blast
  have c: "lower_ascii_greek (or_empty (item_name odos_item)) = [959, 948, 959, 962]"
    unfolding nm by (simp add: lower_eval)
  have d: "lower_ascii_greek [931] = [963]"
    by (simp add: lower_eval)
  have e: "\<not> matchItem lower_ascii_greek odos_item [931]"
    by (simp add: matchItem_def Let_def c d) (simp add: odos_item_def or_nil_def)
  have f: "filteredItems lower_ascii_greek odos_state = []"
    using e by (simp add: filteredItems_def odos_state_def)
  show ?thesis
    by (rule conjI [OF a conjI [OF b conjI [OF c conjI [OF d conjI [OF e f]]]]])
qed

subsection \<open>C8: backfilling option identifiers\<close>

text \<open>
  C8. When an item is selected and some option of it lacks an identifier, the effect
  calls \<open>updateItem\<close> on the selected item with a patched options list, which
  \<open>updateItem\<close> hands to \<open>saveData\<close>. In the patched list every option that had an
  identifier is unchanged; every option that lacked one differs only in \<open>id\<close>, which
  is the result of a call of \<open>crypto.randomUUID()\<close> of its own (the calls are
  numbered in list order, and a later option gets a later call). Identifiers from
  \<open>crypto.randomUUID()\<close> are 36 characters long, so never empty; then every option of
  the selected item has an identifier afterwards. The patched list is also the options of
  the items with the selected identifier, it is what the user's document holds as items
  after an accepted write of a writable session, and the effect changes nothing when it
  runs again.
\<close>

theorem backfill_assigns_ids:
  assumes "selectedItem st = Some sel" and "options sel = Some os"
    and "\<exists>x\<in>set os. \<not> has_id x" and "\<forall>n. randomUUID e n \<noteq> []"
  shows "\<exists>os'. backfill_effect e st = updateItem e (item_id sel) (only_options os') st \<and>
     selected_options (backfill_effect e st) = Some os' \<and> length os' = length os \<and>
     (\<forall>j<length os. has_id (os ! j) \<longrightarrow> os' ! j = os ! j) \<and>
     (\<forall>j<length os. \<not> has_id (os ! j) \<longrightarrow>
        os' ! j = (os ! j)\<lparr>opt_id :=
          Some (randomUUID e (length (filter (\<lambda>x. \<not> has_id x) (take j os))))\<rparr>) \<and>
     (\<forall>j k. j < k \<and> k < length os \<and> \<not> has_id (os ! j) \<longrightarrow>
        length (filter (\<lambda>x. \<not> has_id x) (take j os))
          < length (filter (\<lambda>x. \<not> has_id x) (take k os))) \<and>
     (\<forall>x\<in>set os'. has_id x) \<and>
     (\<forall>k\<in>set (items (backfill_effect e st)). item_id k = item_id sel \<longrightarrow> options k = Some os') \<and>
     (\<forall>uid. user st = Some uid \<and> \<not> isReadOnly st \<and> write_ok e \<longrightarrow>
        read_key (remote (backfill_effect e st)) (UserDoc uid) doc_items
          = Some (items (backfill_effect e st))) \<and>
     (\<forall>e'. backfill_effect e' (backfill_effect e st) = backfill_effect e st)"
proof -
  let ?os' = "patch_ids (randomUUID e) 0 os"
  let ?st' = "updateItem e (item_id sel) (only_options ?os') st"
  have r: "backfill_effect e st = ?st'"
    using assms by (simp add: backfill_effect_def list_ex_iff)
  have s: "selected_options ?st' = Some ?os'"
    using assms by (simp add: selected_options_def selectedItem_updateItem apply_only_options)
  have l: "length ?os' = length os" by (rule length_patch_ids)
  have k: "\<forall>j<length os. has_id (os ! j) \<longrightarrow> ?os' ! j = os ! j"
    by (simp add: nth_patch_ids)
  have n: "\<forall>j<length os. \<not> has_id (os ! j) \<longrightarrow>
        ?os' ! j = (os ! j)\<lparr>opt_id :=
          Some (randomUUID e (length (filter (\<lambda>x. \<not> has_id x) (take j os))))\<rparr>"
    by (simp add: nth_patch_ids)
  have c: "\<forall>j k. j < k \<and> k < length os \<and> \<not> has_id (os ! j) \<longrightarrow>
        length (filter (\<lambda>x. \<not> has_id x) (take j os))
          < length (filter (\<lambda>x. \<not> has_id x) (take k os))"
    by (intro allI impI calls_increase) simp_all
  have a: "\<forall>x\<in>set ?os'. has_id x"
    using assms(4) by (rule patch_ids_all_have_id)
  have i: "\<forall>k\<in>set (items ?st'). item_id k = item_id sel \<longrightarrow> options k = Some ?os'"
    by (auto simp: items_updateItem apply_only_options)
  have p: "\<forall>uid. user st = Some uid \<and> \<not> isReadOnly st \<and> write_ok e \<longrightarrow>
        read_key (remote ?st') (UserDoc uid) doc_items = Some (items ?st')"
    by (simp add: updateItem_persists)
  have d: "\<forall>e'. backfill_effect e' ?st' = ?st'"
    using s a by (intro allI backfill_effect_done)
  show ?thesis
    unfolding r using s l k n c a i p d by (intro exI [of _ ?os'] conjI refl)
qed

text \<open>
  Three options: one without \<open>id\<close>, one with, one with the empty string as \<open>id\<close>.
\<close>

theorem backfill_assigns_ids_witness:
  "selectedItem (example_state legacy_options) = Some (example_item legacy_options) \<and>
   \<not> has_id (legacy_options ! 0) \<and> has_id (legacy_options ! 1) \<and> \<not> has_id (legacy_options ! 2) \<and>
   selected_options (backfill_effect example_env (example_state legacy_options)) =
     Some [mk_opt (Some ''u'') ''A'' ''X'' False, mk_opt (Some ''o1'') ''B'' ''Y'' True,
           mk_opt (Some ''uu'') ''C'' ''Z'' False]"
proof -
  let ?st = "example_state legacy_options"
  have h1: "selectedItem ?st = Some (example_item legacy_options)"
    by (simp add: example_state_def)
  have h2: "options (example_item legacy_options) = Some legacy_options"
    by (simp add: example_item_def)
  have i0: "\<not> has_id (legacy_options ! 0)" by (simp add: legacy_options_def mk_opt_def has_id_def)
  have i1: "has_id (legacy_options ! 1)" by (simp add: legacy_options_def mk_opt_def has_id_def)
  have i2: "\<not> has_id (legacy_options ! 2)" by (simp add: legacy_options_def mk_opt_def has_id_def)
  have h3: "\<exists>x\<in>set legacy_options. \<not> has_id x"
    by (simp add: legacy_options_def mk_opt_def has_id_def)
  have h4: "\<forall>n. randomUUID example_env n \<noteq> []" by (simp add: example_env_def)
  from backfill_assigns_ids [OF h1 h2 h3 h4] obtain os' where
      s: "selected_options (backfill_effect example_env ?st) = Some os'"
      and l: "length os' = length legacy_options"
      and k: "\<forall>j<length legacy_options. has_id (legacy_options ! j) \<longrightarrow> os' ! j = legacy_options ! j"
      and n: "\<forall>j<length legacy_options. \<not> has_id (legacy_options ! j) \<longrightarrow>
        os' ! j = (legacy_options ! j)\<lparr>opt_id :=
          Some (randomUUID example_env
            (length (filter (\<lambda>x. \<not> has_id x) (take j legacy_options))))\<rparr>"
    by (elim exE conjE)
  have len: "length legacy_options = 3" by (simp add: legacy_options_def)
  have e0: "os' ! 0 = mk_opt (Some ''u'') ''A'' ''X'' False"
    using n i0 len by (simp add: legacy_options_def mk_opt_def example_env_def)
  have e1: "os' ! 1 = mk_opt (Some ''o1'') ''B'' ''Y'' True"
    using k i1 len by (simp add: legacy_options_def)
  have "os' ! 2 = (legacy_options ! 2)\<lparr>opt_id :=
          Some (randomUUID example_env
            (length (filter (\<lambda>x. \<not> has_id x) (take 2 legacy_options))))\<rparr>"
    using n i2 len by simp
  then have e2: "os' ! 2 = mk_opt (Some ''uu'') ''C'' ''Z'' False"
    by (simp add: legacy_options_def mk_opt_def example_env_def has_id_def numeral_2_eq_2)
  have "os' = [mk_opt (Some ''u'') ''A'' ''X'' False, mk_opt (Some ''o1'') ''B'' ''Y'' True,
           mk_opt (Some ''uu'') ''C'' ''Z'' False]"
    using l len e0 e1 e2
    by (simp add: list_eq_iff_nth_eq less_Suc_eq numeral_3_eq_3 numeral_2_eq_2)
  with s have c: "selected_options (backfill_effect example_env ?st) =
     Some [mk_opt (Some ''u'') ''A'' ''X'' False, mk_opt (Some ''o1'') ''B'' ''Y'' True,
           mk_opt (Some ''uu'') ''C'' ''Z'' False]"
    by simp
  show ?thesis by (rule conjI [OF h1 conjI [OF i0 conjI [OF i1 conjI [OF i2 c]]]])
qed

subsection \<open>C10: switching the winner off\<close>

text \<open>
  C10, as amended. Clicking the Trophy button of an option that is a winner sets its
  \<open>winner\<close> to false and changes nothing else in the list, whatever the list; when
  the list has at most one winner, the list has no winner afterwards. From a list with at
  most one winner, every run of clicks that succeeds ends in a list of the same length
  with at most one winner, and some run of clicks ends in a list without a winner.
\<close>

theorem winner_toggle_off_invariant:
  "(selected_options st = Some os \<and> idx < length os \<and> winner (os ! idx) \<longrightarrow>
      (\<exists>st'. winner_onClick e idx st = Inr st' \<and>
         selected_options st' = Some (os[idx := (os ! idx)\<lparr>winner := False\<rparr>]) \<and>
         (winners os \<le> 1 \<longrightarrow> winners (os[idx := (os ! idx)\<lparr>winner := False\<rparr>]) = 0))) \<and>
   (selected_options st = Some os \<and> winners os \<le> 1 \<longrightarrow>
      (\<forall>idxs st'. winner_onClicks e idxs st = Inr st' \<longrightarrow>
         (\<exists>os'. selected_options st' = Some os' \<and> length os' = length os \<and> winners os' \<le> 1)) \<and>
      (\<exists>idxs st' os'. winner_onClicks e idxs st = Inr st' \<and> selected_options st' = Some os' \<and>
         winners os' = 0))"
proof (intro conjI impI allI)
  assume a: "selected_options st = Some os \<and> idx < length os \<and> winner (os ! idx)"
  from a winner_onClick_ok [of st os idx e] obtain st' where
      c: "winner_onClick e idx st = Inr st'"
      and s: "selected_options st' = Some (toggle_winner idx os)"
    by blast
  have t: "toggle_winner idx os = os[idx := (os ! idx)\<lparr>winner := False\<rparr>]"
    using a by (simp add: toggle_winner_off)
  have z: "winners os \<le> 1 \<longrightarrow> winners (os[idx := (os ! idx)\<lparr>winner := False\<rparr>]) = 0"
    using a by (simp add: winners_switch_off_zero)
  show "\<exists>st'. winner_onClick e idx st = Inr st' \<and>
         selected_options st' = Some (os[idx := (os ! idx)\<lparr>winner := False\<rparr>]) \<and>
         (winners os \<le> 1 \<longrightarrow> winners (os[idx := (os ! idx)\<lparr>winner := False\<rparr>]) = 0)"
    using c s t z by (intro exI [of _ st'] conjI) simp_all
next
  fix idxs st'
  assume "selected_options st = Some os \<and> winners os \<le> 1"
    and "winner_onClicks e idxs st = Inr st'"
  then show "\<exists>os'. selected_options st' = Some os' \<and> length os' = length os \<and> winners os' \<le> 1"
    using winner_onClicks_invariant by blast
next
  assume "selected_options st = Some os \<and> winners os \<le> 1"
  then show "\<exists>idxs st' os'. winner_onClicks e idxs st = Inr st' \<and>
      selected_options st' = Some os' \<and> winners os' = 0"
    using zero_winners_reachable by blast
qed

text \<open>
  Two options, the second the winner: clicking it leaves no winner, and a run of three
  clicks ends with at most one.
\<close>

theorem winner_toggle_off_invariant_witness:
  "selected_options (example_state one_winner) = Some one_winner \<and>
   1 < length one_winner \<and> winner (one_winner ! 1) \<and> winners one_winner \<le> 1 \<and>
   (\<exists>st'. winner_onClick example_env 1 (example_state one_winner) = Inr st' \<and>
      selected_options st' =
        Some [mk_opt (Some ''o1'') ''A'' ''X'' False, mk_opt (Some ''o2'') ''B'' ''Y'' False]) \<and>
   winners [mk_opt (Some ''o1'') ''A'' ''X'' False, mk_opt (Some ''o2'') ''B'' ''Y'' False] = 0 \<and>
   (\<exists>st' os'. winner_onClicks example_env [0, 0, 1] (example_state one_winner) = Inr st' \<and>
      selected_options st' = Some os' \<and> winners os' \<le> 1)"
proof -
  let ?st = "example_state one_winner"
  let ?off = "[mk_opt (Some ''o1'') ''A'' ''X'' False, mk_opt (Some ''o2'') ''B'' ''Y'' False]"
  have h1: "selected_options ?st = Some one_winner"
    by (simp add: selected_options_def example_state_def example_item_def)
  have h2: "1 < length one_winner" by (simp add: one_winner_def)
  have h3: "winner (one_winner ! 1)" by (simp add: one_winner_def mk_opt_def)
  have h4: "winners one_winner \<le> 1" by (simp add: one_winner_def mk_opt_def winners_def)
  have upd: "one_winner[1 := (one_winner ! 1)\<lparr>winner := False\<rparr>] = ?off"
    by (simp add: one_winner_def mk_opt_def)
  note t = winner_toggle_off_invariant [of ?st one_winner 1 example_env]
  from t h1 h2 h3 have
    "\<exists>st'. winner_onClick example_env 1 ?st = Inr st' \<and>
       selected_options st' = Some (one_winner[1 := (one_winner ! 1)\<lparr>winner := False\<rparr>]) \<and>
       (winners one_winner \<le> 1 \<longrightarrow>
          winners (one_winner[1 := (one_winner ! 1)\<lparr>winner := False\<rparr>]) = 0)"
    by blast
  then obtain st1 where
      c: "winner_onClick example_env 1 ?st = Inr st1"
      and s: "selected_options st1 = Some ?off"
      and z: "winners one_winner \<le> 1 \<longrightarrow> winners ?off = 0"
    unfolding upd by (elim exE conjE)
  have c1: "\<exists>st'. winner_onClick example_env 1 ?st = Inr st' \<and> selected_options st' = Some ?off"
    using c s by (intro exI [of _ st1] conjI)
  have c2: "winners ?off = 0" using z h4 by (rule mp)
  have l0: "0 < length one_winner" by (simp add: one_winner_def)
  obtain sa where a1: "winner_onClick example_env 0 ?st = Inr sa"
      and a2: "selected_options sa = Some (toggle_winner 0 one_winner)"
    using winner_onClick_ok [OF h1 l0, of example_env] by auto
  have la: "0 < length (toggle_winner 0 one_winner)"
    using l0 by (simp only: length_toggle_winner)
  obtain sb where b1: "winner_onClick example_env 0 sa = Inr sb"
      and b2: "selected_options sb = Some (toggle_winner 0 (toggle_winner 0 one_winner))"
    using winner_onClick_ok [OF a2 la, of example_env] by auto
  have lb: "1 < length (toggle_winner 0 (toggle_winner 0 one_winner))"
    using h2 by (simp only: length_toggle_winner)
  obtain sc where d1: "winner_onClick example_env 1 sb = Inr sc"
    using winner_onClick_ok [OF b2 lb, of example_env] by auto
  have run: "winner_onClicks example_env [0, 0, 1] ?st = Inr sc"
    using a1 b1 d1 by simp
  from t h1 h4 have
    "\<forall>idxs st'. winner_onClicks example_env idxs ?st = Inr st' \<longrightarrow>
       (\<exists>os'. selected_options st' = Some os' \<and> length os' = length one_winner \<and> winners os' \<le> 1)"
    by blast
  with run obtain os' where "selected_options sc = Some os'" and "winners os' \<le> 1"
    by blast
  with run have c3: "\<exists>st' os'. winner_onClicks example_env [0, 0, 1] ?st = Inr st' \<and>
      selected_options st' = Some os' \<and> winners os' \<le> 1"
    by (intro exI [of _ sc] exI [of _ os'] conjI)
  show ?thesis
    by (rule conjI [OF h1 conjI [OF h2 conjI [OF h3 conjI [OF h4 conjI [OF c1 conjI [OF c2 c3]]]]]])
qed

text \<open>
  Without the bound on the winners the list is not left without a winner: the handler
  does not look at the other options when it switches one off. In a list of three
  winners, as a document written elsewhere may hold, a click on the first leaves two.
\<close>

theorem winner_toggle_off_counterexample:
  "winner (three_winners ! 0) \<and>
   options_after (winner_onClick example_env 0 (example_state three_winners)) =
     Some [mk_opt (Some ''o1'') ''A'' ''X'' False, mk_opt (Some ''o2'') ''B'' ''Y'' True,
           mk_opt (Some ''o3'') ''C'' ''Z'' True] \<and>
   winners [mk_opt (Some ''o1'') ''A'' ''X'' False, mk_opt (Some ''o2'') ''B'' ''Y'' True,
            mk_opt (Some ''o3'') ''C'' ''Z'' True] = 2"
proof -
  have a: "winner (three_winners ! 0)" by (simp add: three_winners_def mk_opt_def)
  have t: "toggle_winner 0 three_winners =
     [mk_opt (Some ''o1'') ''A'' ''X'' False, mk_opt (Some ''o2'') ''B'' ''Y'' True,
      mk_opt (Some ''o3'') ''C'' ''Z'' True]"
    by (simp add: toggle_winner_def three_winners_def mk_opt_def)
  have b: "options_after (winner_onClick example_env 0 (example_state three_winners)) =
     Some (toggle_winner 0 three_winners)"
    by (simp add: options_after_def winner_onClick_def example_state_def example_item_def
        selected_options_def selectedItem_updateItem apply_only_options three_winners_def)
  have c: "winners [mk_opt (Some ''o1'') ''A'' ''X'' False, mk_opt (Some ''o2'') ''B'' ''Y'' True,
            mk_opt (Some ''o3'') ''C'' ''Z'' True] = 2"
    by (simp add: winners_def mk_opt_def)
  show ?thesis using a b c unfolding t by (intro conjI)
qed

end
